theory Spec2Isabelle
  imports Main "HOL-Library.Monad_Syntax"
begin

chapter \<open>Aero-Log: the collection, its local store and its remote copy\<close>

text \<open>
  The component of \<^verbatim>\<open>src/App.tsx\<close> keeps a list of flight reports, writes it to the
  browser's \<^verbatim>\<open>localStorage\<close>, and mirrors it to a remote endpoint: it pulls the remote
  list at start, when the endpoint is set and on request, and it pushes the local list
  one second after the last change. This theory embeds the component as functions on
  an explicit state and proves what holds of them.
\<close>

section \<open>Records\<close>

text \<open>
  The interfaces \<^verbatim>\<open>FaultItem\<close>, \<^verbatim>\<open>FailureItem\<close> and \<^verbatim>\<open>FlightReport\<close>. A field whose
  name is taken in HOL or by an earlier record carries a prime: \<open>id'\<close>, \<open>time'\<close>,
  \<open>identifier'\<close>, \<open>description'\<close>. The optional \<^verbatim>\<open>rawText\<close> is an option; the
  \<^verbatim>\<open>timestamp\<close>, a count of milliseconds, is a natural number.
\<close>

record FaultItem =
  time :: string
  phase :: string
  ata :: string
  description :: string

record FailureItem =
  time' :: string
  source :: string
  identifier' :: string
  description' :: string

record FlightReport =
  id' :: string
  aircraftId :: string
  date :: string
  flightNumber :: string
  cityPair :: string
  faults :: "FaultItem list"
  failures :: "FailureItem list"
  rawText :: "string option"
  timestamp :: nat

section \<open>JSON\<close>

text \<open>
  The collection reaches \<^verbatim>\<open>localStorage\<close> through \<^verbatim>\<open>JSON.stringify\<close> and comes back
  through \<^verbatim>\<open>JSON.parse\<close>, which throws on a text that is not JSON. Both belong to the
  platform; they are modelled here in full, so that what the component does with a
  stored text is computed from the text. Texts and strings are byte strings (UTF-8); a
  number is kept as its literal.
\<close>

datatype json =
    JNull
  | JBool bool
  | JNumber string
  | JString string
  | JArray "json list"
  | JObject "(string \<times> json) list"

subsection \<open>Writing\<close>

text \<open>
  \<open>stringify\<close> writes a value without white space, as \<^verbatim>\<open>JSON.stringify\<close> does with
  one argument. \<open>quote\<close> escapes the quote, the backslash and the control characters.
\<close>

definition digit_char :: "nat \<Rightarrow> char" where
  "digit_char d = char_of (48 + d)"

fun show_nat :: "nat \<Rightarrow> string" where
  "show_nat n = (if n < 10 then [digit_char n] else show_nat (n div 10) @ [digit_char (n mod 10)])"

declare show_nat.simps [simp del]

definition hex_char :: "nat \<Rightarrow> char" where
  "hex_char d = (if d < 10 then char_of (48 + d) else char_of (87 + d))"

definition quote_char :: "char \<Rightarrow> string" where
  "quote_char c =
     (if c = CHR 0x22 then [CHR 0x5C, CHR 0x22]
      else if c = CHR 0x5C then [CHR 0x5C, CHR 0x5C]
      else if c = CHR 0x08 then [CHR 0x5C, CHR ''b'']
      else if c = CHR 0x0C then [CHR 0x5C, CHR ''f'']
      else if c = CHR 0x0A then [CHR 0x5C, CHR ''n'']
      else if c = CHR 0x0D then [CHR 0x5C, CHR ''r'']
      else if c = CHR 0x09 then [CHR 0x5C, CHR ''t'']
      else if (of_char c :: nat) < 32
        then [CHR 0x5C, CHR ''u'', CHR ''0'', CHR ''0'', hex_char (of_char c div 16), hex_char (of_char c mod 16)]
      else [c])"

definition quote :: "string \<Rightarrow> string" where
  "quote s = CHR 0x22 # concat (map quote_char s) @ [CHR 0x22]"

fun join :: "'a list \<Rightarrow> 'a list list \<Rightarrow> 'a list" where
  "join sep [] = []"
| "join sep [x] = x"
| "join sep (x # y # ys) = x @ sep @ join sep (y # ys)"

fun stringify :: "json \<Rightarrow> string" where
  "stringify JNull = ''null''"
| "stringify (JBool b) = (if b then ''true'' else ''false'')"
| "stringify (JNumber lit) = lit"
| "stringify (JString s) = quote s"
| "stringify (JArray vs) = CHR ''['' # join '','' (map stringify vs) @ '']''"
| "stringify (JObject ms) =
     CHR ''{'' # join '','' (map (\<lambda>(k, v). quote k @ CHR '':'' # stringify v) ms) @ ''}''"

subsection \<open>Reading\<close>

text \<open>
  The reader is a scanner that takes one character at a time, followed by a recursive
  descent over the tokens. The scanner knows the whole grammar of JSON texts: white
  space, the string escapes, and numbers with fraction and exponent. The descent
  carries a bound on its depth; \<open>JSON_parse\<close> starts it with more than the number of
  tokens, which it cannot use up. The result \<open>None\<close> is the \<^verbatim>\<open>SyntaxError\<close> of
  \<^verbatim>\<open>JSON.parse\<close>.

  A four-digit escape names one UTF-16 code unit. \<open>utf8\<close> writes a code point as
  bytes; a surrogate, which is half of a code point above \<^verbatim>\<open>U+FFFF\<close>, comes out in the
  same three-byte form, and \<open>surrogate\<close> reads it back. When a string is complete,
  \<open>join_surrogates\<close> puts every high surrogate that is followed by a low one
  together with it, into the four bytes of the code point the two stand for: the
  escaped pair \<^verbatim>\<open>\ud83d\ude00\<close> and the character \<^verbatim>\<open>U+1F600\<close> written out are the same
  string, as they are for \<^verbatim>\<open>JSON.parse\<close>.
\<close>

datatype token =
    LBrace | RBrace | LBrack | RBrack | Colon | Comma
  | TStr string | TNum string | TTrue | TFalse | TNull

datatype num_phase = NMinus | NZero | NInt | NDot | NFrac | NExp | NSign | NExpD

datatype mode =
    Between
  | InStr string
  | InEsc string
  | InHex string nat nat
  | InNum num_phase string
  | InLit string token

definition is_digit :: "char \<Rightarrow> bool" where
  "is_digit c = (48 \<le> (of_char c :: nat) \<and> (of_char c :: nat) \<le> 57)"

definition is_space :: "char \<Rightarrow> bool" where
  "is_space c = (c = CHR 0x20 \<or> c = CHR 0x09 \<or> c = CHR 0x0A \<or> c = CHR 0x0D)"

definition accepting :: "num_phase \<Rightarrow> bool" where
  "accepting p = (p = NZero \<or> p = NInt \<or> p = NFrac \<or> p = NExpD)"

fun num_step :: "num_phase \<Rightarrow> char \<Rightarrow> num_phase option" where
  "num_step NMinus c = (if c = CHR ''0'' then Some NZero else if is_digit c then Some NInt else None)"
| "num_step NZero c =
     (if c = CHR ''.'' then Some NDot else if c = CHR ''e'' \<or> c = CHR ''E'' then Some NExp else None)"
| "num_step NInt c =
     (if is_digit c then Some NInt else if c = CHR ''.'' then Some NDot
      else if c = CHR ''e'' \<or> c = CHR ''E'' then Some NExp else None)"
| "num_step NDot c = (if is_digit c then Some NFrac else None)"
| "num_step NFrac c =
     (if is_digit c then Some NFrac else if c = CHR ''e'' \<or> c = CHR ''E'' then Some NExp else None)"
| "num_step NExp c =
     (if is_digit c then Some NExpD else if c = CHR ''+'' \<or> c = CHR ''-'' then Some NSign else None)"
| "num_step NSign c = (if is_digit c then Some NExpD else None)"
| "num_step NExpD c = (if is_digit c then Some NExpD else None)"

definition idle :: "char \<Rightarrow> (token list \<times> mode) option" where
  "idle c =
     (if is_space c then Some ([], Between)
      else if c = CHR ''{'' then Some ([LBrace], Between)
      else if c = CHR ''}'' then Some ([RBrace], Between)
      else if c = CHR ''['' then Some ([LBrack], Between)
      else if c = CHR '']'' then Some ([RBrack], Between)
      else if c = CHR '':'' then Some ([Colon], Between)
      else if c = CHR '','' then Some ([Comma], Between)
      else if c = CHR 0x22 then Some ([], InStr [])
      else if c = CHR ''-'' then Some ([], InNum NMinus [c])
      else if c = CHR ''0'' then Some ([], InNum NZero [c])
      else if is_digit c then Some ([], InNum NInt [c])
      else if c = CHR ''t'' then Some ([], InLit ''rue'' TTrue)
      else if c = CHR ''f'' then Some ([], InLit ''alse'' TFalse)
      else if c = CHR ''n'' then Some ([], InLit ''ull'' TNull)
      else None)"

definition unescape :: "char \<Rightarrow> char option" where
  "unescape c =
     (if c = CHR 0x22 \<or> c = CHR 0x5C \<or> c = CHR ''/'' then Some c
      else if c = CHR ''b'' then Some (CHR 0x08)
      else if c = CHR ''f'' then Some (CHR 0x0C)
      else if c = CHR ''n'' then Some (CHR 0x0A)
      else if c = CHR ''r'' then Some (CHR 0x0D)
      else if c = CHR ''t'' then Some (CHR 0x09)
      else None)"

definition hex_val :: "char \<Rightarrow> nat option" where
  "hex_val c =
     (let n = (of_char c :: nat) in
      if 48 \<le> n \<and> n \<le> 57 then Some (n - 48)
      else if 97 \<le> n \<and> n \<le> 102 then Some (n - 87)
      else if 65 \<le> n \<and> n \<le> 70 then Some (n - 55)
      else None)"

definition utf8 :: "nat \<Rightarrow> string" where
  "utf8 n =
     (if n < 128 then [char_of n]
      else if n < 2048 then [char_of (192 + n div 64), char_of (128 + n mod 64)]
      else if n < 65536
        then [char_of (224 + n div 4096), char_of (128 + (n div 64) mod 64), char_of (128 + n mod 64)]
      else [char_of (240 + n div 262144), char_of (128 + (n div 4096) mod 64),
            char_of (128 + (n div 64) mod 64), char_of (128 + n mod 64)])"

definition surrogate :: "char \<Rightarrow> char \<Rightarrow> char \<Rightarrow> nat option" where
  "surrogate a b c =
     (let m = (of_char b :: nat); n = (of_char c :: nat) in
      if a = CHR 0xED \<and> 160 \<le> m \<and> m \<le> 191 \<and> 128 \<le> n \<and> n \<le> 191
      then Some (55296 + (m - 160) * 64 + (n - 128))
      else None)"

fun join_surrogates :: "string \<Rightarrow> string" where
  "join_surrogates (a # b # c # d # e # f # rest) =
     (case (surrogate a b c, surrogate d e f) of
        (Some high, Some low) \<Rightarrow>
          if high < 56320 \<and> 56320 \<le> low
          then utf8 (65536 + (high - 55296) * 1024 + (low - 56320)) @ join_surrogates rest
          else a # join_surrogates (b # c # d # e # f # rest)
      | _ \<Rightarrow> a # join_surrogates (b # c # d # e # f # rest))"
| "join_surrogates s = s"

declare join_surrogates.simps [simp del]

definition emit :: "token list \<Rightarrow> token list option \<Rightarrow> token list option" where
  "emit ts r = map_option ((@) ts) r"

fun lex :: "mode \<Rightarrow> string \<Rightarrow> token list option" where
  "lex m [] =
     (case m of Between \<Rightarrow> Some []
      | InNum p lit \<Rightarrow> if accepting p then Some [TNum lit] else None
      | _ \<Rightarrow> None)"
| "lex Between (c # cs) =
     (case idle c of None \<Rightarrow> None | Some (ts, m) \<Rightarrow> emit ts (lex m cs))"
| "lex (InStr acc) (c # cs) =
     (if c = CHR 0x22 then emit [TStr (join_surrogates acc)] (lex Between cs)
      else if c = CHR 0x5C then lex (InEsc acc) cs
      else if (of_char c :: nat) < 32 then None
      else lex (InStr (acc @ [c])) cs)"
| "lex (InEsc acc) (c # cs) =
     (case unescape c of Some d \<Rightarrow> lex (InStr (acc @ [d])) cs
      | None \<Rightarrow> if c = CHR ''u'' then lex (InHex acc 0 0) cs else None)"
| "lex (InHex acc k code) (c # cs) =
     (case hex_val c of None \<Rightarrow> None
      | Some h \<Rightarrow>
          if k = 3 then lex (InStr (acc @ utf8 (code * 16 + h))) cs
          else lex (InHex acc (k + 1) (code * 16 + h)) cs)"
| "lex (InNum p lit) (c # cs) =
     (case num_step p c of Some p' \<Rightarrow> lex (InNum p' (lit @ [c])) cs
      | None \<Rightarrow>
          if accepting p
          then (case idle c of None \<Rightarrow> None
                | Some (ts, m) \<Rightarrow> emit (TNum lit # ts) (lex m cs))
          else None)"
| "lex (InLit expected t) (c # cs) =
     (case expected of [] \<Rightarrow> None
      | e # es \<Rightarrow>
          if c \<noteq> e then None
          else if es = [] then emit [t] (lex Between cs)
          else lex (InLit es t) cs)"

fun parse_value :: "nat \<Rightarrow> token list \<Rightarrow> (json \<times> token list) option"
  and parse_elements :: "nat \<Rightarrow> token list \<Rightarrow> (json list \<times> token list) option"
  and parse_members :: "nat \<Rightarrow> token list \<Rightarrow> ((string \<times> json) list \<times> token list) option"
where
  "parse_value 0 ts = None"
| "parse_value (Suc n) [] = None"
| "parse_value (Suc n) (t # ts) =
     (case t of
        TNull \<Rightarrow> Some (JNull, ts)
      | TTrue \<Rightarrow> Some (JBool True, ts)
      | TFalse \<Rightarrow> Some (JBool False, ts)
      | TNum lit \<Rightarrow> Some (JNumber lit, ts)
      | TStr s \<Rightarrow> Some (JString s, ts)
      | LBrack \<Rightarrow>
          (case ts of
             RBrack # ts' \<Rightarrow> Some (JArray [], ts')
           | _ \<Rightarrow> map_option (\<lambda>(vs, r). (JArray vs, r)) (parse_elements n ts))
      | LBrace \<Rightarrow>
          (case ts of
             RBrace # ts' \<Rightarrow> Some (JObject [], ts')
           | _ \<Rightarrow> map_option (\<lambda>(ms, r). (JObject ms, r)) (parse_members n ts))
      | _ \<Rightarrow> None)"
| "parse_elements 0 ts = None"
| "parse_elements (Suc n) ts =
     (case parse_value n ts of
        None \<Rightarrow> None
      | Some (v, ts1) \<Rightarrow>
          (case ts1 of
             Comma # ts2 \<Rightarrow> map_option (\<lambda>(vs, r). (v # vs, r)) (parse_elements n ts2)
           | RBrack # ts2 \<Rightarrow> Some ([v], ts2)
           | _ \<Rightarrow> None))"
| "parse_members 0 ts = None"
| "parse_members (Suc n) ts =
     (case ts of
        TStr k # Colon # ts1 \<Rightarrow>
          (case parse_value n ts1 of
             None \<Rightarrow> None
           | Some (v, ts2) \<Rightarrow>
               (case ts2 of
                  Comma # ts3 \<Rightarrow> map_option (\<lambda>(ms, r). ((k, v) # ms, r)) (parse_members n ts3)
                | RBrace # ts3 \<Rightarrow> Some ([(k, v)], ts3)
                | _ \<Rightarrow> None))
      | _ \<Rightarrow> None)"

definition JSON_parse :: "string \<Rightarrow> json option" where
  "JSON_parse text =
     (case lex Between text of
        None \<Rightarrow> None
      | Some ts \<Rightarrow>
          (case parse_value (Suc (length ts)) ts of
             Some (v, []) \<Rightarrow> Some v
           | _ \<Rightarrow> None))"

subsection \<open>Reports as JSON\<close>

text \<open>
  A report is written as an object with its fields in the order of the interface; an
  absent \<^verbatim>\<open>rawText\<close> is left out, as \<^verbatim>\<open>JSON.stringify\<close> leaves out an undefined
  property.

  \<open>json_reports\<close> reads a value as a list of reports: an array of objects that have
  the properties of the interface, with values of the types of the interface. A
  property is looked up by its name, as \<^verbatim>\<open>report.id\<close> is: the order of the properties
  in the text does not matter, a property the interface does not know is passed over,
  and of a name that is written twice the last one counts, as in the object
  \<^verbatim>\<open>JSON.parse\<close> builds. The typed state keeps of such an object the fields of the
  interface, and these are what it writes: in which order the object had them, and
  what else it had, is not kept track of.

  Two kinds of value have no place in these fields. A string with a surrogate that
  \<open>join_surrogates\<close> has left alone is no sequence of characters (\<open>scalar\<close> tells).
  A number literal with a sign, a fraction or an exponent, or above \<^verbatim>\<open>2^53\<close>, is a
  double that \<^verbatim>\<open>JSON.parse\<close> may have to round, at the far end to infinity; up to
  \<^verbatim>\<open>2^53\<close> a double holds every natural number exactly and \<^verbatim>\<open>JSON.stringify\<close> writes
  it with the same digits, and these are the timestamps \<open>read_nat\<close> reads. For
  every other value \<open>json_reports\<close> answers \<open>None\<close>: the value is no list of reports
  as the typed state knows them.
\<close>

definition plain_number :: "string \<Rightarrow> bool" where
  "plain_number lit =
     (case lit of [] \<Rightarrow> False
      | d # ds \<Rightarrow> is_digit d \<and> list_all is_digit ds \<and> (d = CHR ''0'' \<longrightarrow> ds = []))"

definition digit_val :: "char \<Rightarrow> nat" where
  "digit_val c = of_char c - 48"

definition read_nat :: "string \<Rightarrow> nat option" where
  "read_nat lit =
     (if plain_number lit
      then (let v = foldl (\<lambda>v c. 10 * v + int (digit_val c)) 0 lit
            in if v \<le> 9007199254740992 then Some (nat v) else None)
      else None)"

fun scalar :: "string \<Rightarrow> bool" where
  "scalar (a # b # cs) = (\<not> (a = CHR 0xED \<and> 160 \<le> (of_char b :: nat)) \<and> scalar (b # cs))"
| "scalar s = True"

definition fault_json :: "FaultItem \<Rightarrow> json" where
  "fault_json f =
     JObject [(''time'', JString (time f)), (''phase'', JString (phase f)),
              (''ata'', JString (ata f)), (''description'', JString (description f))]"

definition failure_json :: "FailureItem \<Rightarrow> json" where
  "failure_json f =
     JObject [(''time'', JString (time' f)), (''source'', JString (source f)),
              (''identifier'', JString (identifier' f)), (''description'', JString (description' f))]"

definition report_json :: "FlightReport \<Rightarrow> json" where
  "report_json r =
     JObject ([(''id'', JString (id' r)), (''aircraftId'', JString (aircraftId r)),
               (''date'', JString (date r)), (''flightNumber'', JString (flightNumber r)),
               (''cityPair'', JString (cityPair r)),
               (''faults'', JArray (map fault_json (faults r))),
               (''failures'', JArray (map failure_json (failures r)))]
              @ (case rawText r of None \<Rightarrow> [] | Some t \<Rightarrow> [(''rawText'', JString t)])
              @ [(''timestamp'', JNumber (show_nat (timestamp r)))])"

definition reports_json :: "FlightReport list \<Rightarrow> json" where
  "reports_json rs = JArray (map report_json rs)"

definition JSON_stringify :: "FlightReport list \<Rightarrow> string" where
  "JSON_stringify rs = stringify (reports_json rs)"

definition property :: "string \<Rightarrow> (string \<times> json) list \<Rightarrow> json option" where
  "property k ms = map_of (rev ms) k"

definition str_prop :: "string \<Rightarrow> (string \<times> json) list \<Rightarrow> string option" where
  "str_prop k ms =
     (case property k ms of
        Some (JString s) \<Rightarrow> if scalar s then Some s else None
      | _ \<Rightarrow> None)"

definition opt_str_prop :: "string \<Rightarrow> (string \<times> json) list \<Rightarrow> string option option" where
  "opt_str_prop k ms =
     (case property k ms of
        None \<Rightarrow> Some None
      | Some (JString s) \<Rightarrow> if scalar s then Some (Some s) else None
      | Some _ \<Rightarrow> None)"

definition arr_prop :: "string \<Rightarrow> (string \<times> json) list \<Rightarrow> json list option" where
  "arr_prop k ms = (case property k ms of Some (JArray vs) \<Rightarrow> Some vs | _ \<Rightarrow> None)"

definition num_prop :: "string \<Rightarrow> (string \<times> json) list \<Rightarrow> nat option" where
  "num_prop k ms = (case property k ms of Some (JNumber lit) \<Rightarrow> read_nat lit | _ \<Rightarrow> None)"

fun json_fault :: "json \<Rightarrow> FaultItem option" where
  "json_fault (JObject ms) =
     do { t \<leftarrow> str_prop ''time'' ms; p \<leftarrow> str_prop ''phase'' ms;
          x \<leftarrow> str_prop ''ata'' ms; ds \<leftarrow> str_prop ''description'' ms;
          Some \<lparr>time = t, phase = p, ata = x, description = ds\<rparr> }"
| "json_fault _ = None"

fun json_failure :: "json \<Rightarrow> FailureItem option" where
  "json_failure (JObject ms) =
     do { t \<leftarrow> str_prop ''time'' ms; s \<leftarrow> str_prop ''source'' ms;
          i \<leftarrow> str_prop ''identifier'' ms; ds \<leftarrow> str_prop ''description'' ms;
          Some \<lparr>time' = t, source = s, identifier' = i, description' = ds\<rparr> }"
| "json_failure _ = None"

fun json_report :: "json \<Rightarrow> FlightReport option" where
  "json_report (JObject ms) =
     do { i \<leftarrow> str_prop ''id'' ms; ac \<leftarrow> str_prop ''aircraftId'' ms;
          dt \<leftarrow> str_prop ''date'' ms; fn \<leftarrow> str_prop ''flightNumber'' ms;
          cp \<leftarrow> str_prop ''cityPair'' ms;
          fl \<leftarrow> arr_prop ''faults'' ms; fls \<leftarrow> those (map json_fault fl);
          fa \<leftarrow> arr_prop ''failures'' ms; fas \<leftarrow> those (map json_failure fa);
          raw \<leftarrow> opt_str_prop ''rawText'' ms;
          n \<leftarrow> num_prop ''timestamp'' ms;
          Some \<lparr>id' = i, aircraftId = ac, date = dt, flightNumber = fn, cityPair = cp,
                faults = fls, failures = fas, rawText = raw, timestamp = n\<rparr> }"
| "json_report _ = None"

definition isArray :: "json \<Rightarrow> bool" where
  "isArray v = (case v of JArray _ \<Rightarrow> True | _ \<Rightarrow> False)"

definition json_reports :: "json \<Rightarrow> FlightReport list option" where
  "json_reports v = (case v of JArray vs \<Rightarrow> those (map json_report vs) | _ \<Rightarrow> None)"

section \<open>The application state\<close>

text \<open>
  \<^verbatim>\<open>src/App.tsx\<close> is one component. Its state is the \<^verbatim>\<open>useState\<close> cells, the
  \<^verbatim>\<open>isInitialLoad\<close> ref, and what it reaches in the browser: \<^verbatim>\<open>localStorage\<close>, the one
  timer of the auto-save effect, and the clock. Three collaborators are imported from
  files that are not part of the sources at hand; each call to them is recorded:
  \<^verbatim>\<open>saveReportsToServer\<close> in \<open>saveCalls\<close>, \<^verbatim>\<open>fetchReportsFromServer\<close> in
  \<open>fetchCalls\<close>, \<^verbatim>\<open>extractDataFromImage\<close> in \<open>extractCalls\<close>.

  \<open>batchedUpdates\<close> is the scheduling mode of the React root, which the component
  cannot see: a root that batches (React 18 and later) renders the state updates of a
  promise continuation after the continuation has finished; a synchronous root renders
  each of them at once and runs the pending effects before the next one. The only place
  where the difference shows is the order of the auto-save effect and the line
  \<^verbatim>\<open>isInitialLoad.current = false\<close> in \<^verbatim>\<open>handleServerFetch\<close>.
\<close>

definition STORAGE_KEY :: string where
  "STORAGE_KEY = ''aerolog_data_v1''"

definition SERVER_URL_KEY :: string where
  "SERVER_URL_KEY = ''aerolog_server_url''"

datatype sync_status = Idle | Syncing | Synced | Error

datatype File = File (fileName: string)

text \<open>A call \<^verbatim>\<open>saveReportsToServer(serverUrl, reports)\<close> and the instant it is made.\<close>

datatype SaveCall = SaveCall (issuedAt: nat) (endpoint: string) (payload: "FlightReport list")

text \<open>
  How the promise of \<^verbatim>\<open>fetchReportsFromServer\<close> settles: rejected, or resolved with a
  collection, which may be absent (\<^verbatim>\<open>null\<close> or \<^verbatim>\<open>undefined\<close>).
\<close>

datatype FetchResult = Rejected | Resolved "FlightReport list option"

text \<open>
  \<^verbatim>\<open>extractDataFromImage\<close> is an opaque, fallible collaborator. Its answer to a document
  may depend on every call made to it before (it draws fresh identifiers, it runs into
  a quota), so it is a function of the calls so far and the document.
\<close>

type_synonym Extractor = "File list \<Rightarrow> File \<Rightarrow> string + FlightReport"

record App =
  reports :: "FlightReport list"
  isProcessing :: bool
  processingStatus :: string
  error :: "string option"
  serverUrl :: string
  syncStatus :: sync_status
  lastSyncTime :: "nat option"
  isInitialLoad :: bool
  localStorage :: "string \<rightharpoonup> string"
  timeoutId :: "SaveCall option"
  clock :: nat
  saveCalls :: "SaveCall list"
  fetchCalls :: "string list"
  extractCalls :: "File list"
  batchedUpdates :: bool

text \<open>
  The cell \<^verbatim>\<open>reports\<close> is declared \<^verbatim>\<open>FlightReport[]\<close>, and so it is here. The
  declaration is not checked when the program runs: in two places (lines 40 and 177)
  the component hands \<^verbatim>\<open>setReports\<close> what \<^verbatim>\<open>JSON.parse\<close> returned. The result of
  these two is an \<open>outcome\<close>: \<open>Typed s\<close> when the component goes on in the state
  \<open>s\<close>, and \<open>Unchecked v\<close> when it has made the value \<open>v\<close>, which is no list of
  reports, its collection. \<open>typed\<close> is the state, when there is one.

  With an unchecked collection the next thing that happens is the render, whose first
  use of the collection is \<^verbatim>\<open>reports.length\<close> (line 219; the auto-save effect starts
  with the same expression, line 78). Reading a property of \<^verbatim>\<open>null\<close> throws a
  \<^verbatim>\<open>TypeError\<close>; every other value that \<^verbatim>\<open>JSON.parse\<close> returns can be asked for a
  property. \<open>lengthThrows\<close> says whether the expression throws.
\<close>

datatype outcome = Typed App | Unchecked json

fun typed :: "outcome \<Rightarrow> App option" where
  "typed (Typed s) = Some s"
| "typed (Unchecked v) = None"

definition lengthThrows :: "json \<Rightarrow> bool" where
  "lengthThrows v = (v = JNull)"

definition initialApp :: "bool \<Rightarrow> (string \<rightharpoonup> string) \<Rightarrow> nat \<Rightarrow> App" where
  "initialApp batched storage t =
     \<lparr>reports = [], isProcessing = False, processingStatus = [], error = None,
      serverUrl = [], syncStatus = Idle, lastSyncTime = None, isInitialLoad = True,
      localStorage = storage, timeoutId = None, clock = t, saveCalls = [], fetchCalls = [],
      extractCalls = [], batchedUpdates = batched\<rparr>"

section \<open>The auto-save effect\<close>

text \<open>
  The effect of lines 76 to 96, with dependencies \<^verbatim>\<open>[reports, serverUrl]\<close>. Before a
  new run React runs the cleanup the previous run returned, \<^verbatim>\<open>clearTimeout(timeoutId)\<close>.
  Then the collection is written to \<^verbatim>\<open>localStorage\<close> when it is not empty, and a push is
  scheduled 1000 ms ahead when an endpoint is set and the initial-load flag is down.
  The timer's closure holds the \<^verbatim>\<open>serverUrl\<close> and \<^verbatim>\<open>reports\<close> of this run.
\<close>

definition autoSaveEffect :: "App \<Rightarrow> App" where
  "autoSaveEffect s =
     (let s1 = s\<lparr>timeoutId := None\<rparr>;
          s2 = (if length (reports s1) > 0
                then s1\<lparr>localStorage := (localStorage s1)(STORAGE_KEY \<mapsto> JSON_stringify (reports s1))\<rparr>
                else s1)
      in if serverUrl s2 \<noteq> [] \<and> \<not> isInitialLoad s2
         then s2\<lparr>timeoutId := Some (SaveCall (clock s2 + 1000) (serverUrl s2) (reports s2))\<rparr>
         else s2)"

text \<open>
  \<^verbatim>\<open>setReports\<close> is always called with an array made on the spot (a spread, a
  \<^verbatim>\<open>filter\<close>, a literal, a parsed or fetched value), so the dependency \<^verbatim>\<open>reports\<close> changes
  by identity at every call and the render that follows runs the effect again.
\<close>

definition setReports :: "FlightReport list \<Rightarrow> App \<Rightarrow> App" where
  "setReports rs s = autoSaveEffect (s\<lparr>reports := rs\<rparr>)"

section \<open>Pull: \<^verbatim>\<open>handleServerFetch\<close>\<close>

text \<open>
  The function is asynchronous. \<open>handleServerFetch\<close> is its part up to the
  \<^verbatim>\<open>await\<close>: the guard on an empty URL, the status, the request. \<open>fetchSettled\<close> is
  the rest, run when the promise settles: the \<^verbatim>\<open>try\<close> body after the \<^verbatim>\<open>await\<close>, the
  \<^verbatim>\<open>catch\<close>, and the \<^verbatim>\<open>finally\<close> that lowers the flag. When the fetched collection is
  installed, a batching root runs the auto-save effect after the whole continuation,
  flag already down; a synchronous root runs it while the flag still has its old value.
  \<open>pull\<close>, defined once the clock is, is the whole function when the answer takes
  \<open>d\<close> milliseconds and no other event falls in between.
\<close>

definition handleServerFetch :: "string \<Rightarrow> App \<Rightarrow> App" where
  "handleServerFetch url s =
     (if url = [] then s
      else s\<lparr>syncStatus := Syncing, fetchCalls := fetchCalls s @ [url]\<rparr>)"

definition fetchSettled :: "FetchResult \<Rightarrow> App \<Rightarrow> App" where
  "fetchSettled res s =
     (case res of
        Rejected \<Rightarrow> s\<lparr>syncStatus := Error, isInitialLoad := False\<rparr>
      | Resolved serverReports \<Rightarrow>
          (case serverReports of
             None \<Rightarrow>
               s\<lparr>syncStatus := Synced, lastSyncTime := Some (clock s), isInitialLoad := False\<rparr>
           | Some rs \<Rightarrow>
               if length rs > 0
               then
                 (let s1 = s\<lparr>reports := rs,
                              localStorage := (localStorage s)(STORAGE_KEY \<mapsto> JSON_stringify rs)\<rparr>
                  in if batchedUpdates s
                     then autoSaveEffect
                            (s1\<lparr>syncStatus := Synced, lastSyncTime := Some (clock s),
                                isInitialLoad := False\<rparr>)
                     else (autoSaveEffect s1)
                            \<lparr>syncStatus := Synced, lastSyncTime := Some (clock s),
                             isInitialLoad := False\<rparr>)
               else s\<lparr>syncStatus := Synced, lastSyncTime := Some (clock s),
                      isInitialLoad := False\<rparr>))"

section \<open>Start\<close>

text \<open>
  \<open>initialize\<close> is the first effect (lines 33 to 52): the saved URL, the saved
  collection inside \<^verbatim>\<open>try\<close>/\<^verbatim>\<open>catch\<close>, then the startup pull or the lowering of the flag.
  A saved text that \<^verbatim>\<open>JSON.parse\<close> rejects is caught and leaves the collection empty.
  Whatever \<^verbatim>\<open>JSON.parse\<close> returns is handed to \<^verbatim>\<open>setReports\<close> as it is (line 40): a
  list of reports, and the component goes on with it; or any other value, \<^verbatim>\<open>null\<close>
  for one, and the outcome is \<open>Unchecked\<close>. Nothing is thrown in that case, so the
  \<^verbatim>\<open>catch\<close> does not run.
  The render after the effect runs the auto-save effect again when \<^verbatim>\<open>setServerUrl\<close> or
  \<^verbatim>\<open>setReports\<close> changed a dependency. The request of the startup pull is still under
  way then: it settles in a later \<open>FetchSettled\<close> event.

  \<open>mount\<close> is the first render with both effects, and the state the component is
  in after them. The auto-save effect of the first render sees the initial
  \<^verbatim>\<open>reports = []\<close> and \<^verbatim>\<open>serverUrl = ''\<close> and does nothing, on whichever side of the
  first effect it runs.
\<close>

definition truthy :: "string option \<Rightarrow> bool" where
  "truthy v = (case v of None \<Rightarrow> False | Some t \<Rightarrow> t \<noteq> [])"

definition initialize :: "App \<Rightarrow> outcome" where
  "initialize s =
     (let savedUrl = localStorage s SERVER_URL_KEY;
          s1 = (case savedUrl of
                  Some u \<Rightarrow> if u \<noteq> [] then s\<lparr>serverUrl := u\<rparr> else s
                | None \<Rightarrow> s);
          savedData = localStorage s STORAGE_KEY;
          loaded = (case savedData of
                      None \<Rightarrow> Inr (s1, False)
                    | Some text \<Rightarrow>
                        if text = [] then Inr (s1, False)
                        else (case JSON_parse text of
                                None \<Rightarrow> Inr (s1, False)
                              | Some v \<Rightarrow>
                                  (case json_reports v of
                                     None \<Rightarrow> Inl v
                                   | Some rs \<Rightarrow> Inr (s1\<lparr>reports := rs\<rparr>, True))))
      in case loaded of
           Inl v \<Rightarrow> Unchecked v
         | Inr (s2, reportsSet) \<Rightarrow>
             (let s3 = (if truthy savedUrl then handleServerFetch (serverUrl s2) s2
                        else s2\<lparr>isInitialLoad := False\<rparr>)
              in Typed (if reportsSet \<or> truthy savedUrl then autoSaveEffect s3 else s3)))"

definition mount :: "bool \<Rightarrow> (string \<rightharpoonup> string) \<Rightarrow> nat \<Rightarrow> App option" where
  "mount batched storage t = typed (initialize (autoSaveEffect (initialApp batched storage t)))"

section \<open>The handlers\<close>

text \<open>
  \<^verbatim>\<open>handleUrlChange\<close> (lines 99 to 107). \<^verbatim>\<open>serverUrl\<close> is a string, compared by value:
  the effect runs again only when the new URL differs from the old one.
\<close>

definition handleUrlChange :: "string \<Rightarrow> App \<Rightarrow> App" where
  "handleUrlChange newUrl s =
     (let s1 = s\<lparr>serverUrl := newUrl,
                  localStorage := (localStorage s)(SERVER_URL_KEY \<mapsto> newUrl)\<rparr>;
          s2 = (if newUrl \<noteq> [] then handleServerFetch newUrl s1 else s1\<lparr>syncStatus := Idle\<rparr>)
      in if newUrl \<noteq> serverUrl s then autoSaveEffect s2 else s2)"

text \<open>The manual sync of line 205, \<^verbatim>\<open>onManualSync={() => handleServerFetch(serverUrl)}\<close>.\<close>

definition onManualSync :: "App \<Rightarrow> App" where
  "onManualSync s = handleServerFetch (serverUrl s) s"

text \<open>
  \<^verbatim>\<open>handleFileSelect\<close> (lines 109 to 137). The loop awaits one extraction before it
  starts the next. \<open>ingestLoop\<close> carries the loop index and the two counters; a
  success prepends the new report, \<^verbatim>\<open>setReports(prev => [newReport, ...prev])\<close>, a
  failure is caught and counted. No time passes on the clock during the batch.
\<close>

fun ingestLoop ::
  "Extractor \<Rightarrow> nat \<Rightarrow> nat \<Rightarrow> File list \<Rightarrow> App \<times> nat \<times> nat \<Rightarrow> App \<times> nat \<times> nat" where
  "ingestLoop adapter n i [] (s, successCount, errorCount) = (s, successCount, errorCount)"
| "ingestLoop adapter n i (doc # docs) (s, successCount, errorCount) =
     (let s1 = s\<lparr>processingStatus :=
                    ''Analyzing '' @ show_nat (i + 1) @ '' of '' @ show_nat n @ ''...''\<rparr>;
          s2 = s1\<lparr>extractCalls := extractCalls s1 @ [doc]\<rparr>
      in case adapter (extractCalls s1) doc of
           Inr newReport \<Rightarrow>
             ingestLoop adapter n (i + 1) docs
               (setReports (newReport # reports s2) s2, successCount + 1, errorCount)
         | Inl err \<Rightarrow>
             ingestLoop adapter n (i + 1) docs (s2, successCount, errorCount + 1))"

definition handleFileSelect :: "Extractor \<Rightarrow> File list \<Rightarrow> App \<Rightarrow> App" where
  "handleFileSelect adapter files s =
     (case ingestLoop adapter (length files) 0 files (s\<lparr>isProcessing := True, error := None\<rparr>, 0, 0) of
        (s1, successCount, errorCount) \<Rightarrow>
          (let s2 = s1\<lparr>processingStatus := [], isProcessing := False\<rparr>
           in if errorCount > 0
              then s2\<lparr>error := Some (''Completed with issues: '' @ show_nat successCount
                                       @ '' processed, '' @ show_nat errorCount @ '' failed.'')\<rparr>
              else s2))"

text \<open>\<^verbatim>\<open>handleRemoveReport\<close> (lines 139 to 141).\<close>

definition handleRemoveReport :: "string \<Rightarrow> App \<Rightarrow> App" where
  "handleRemoveReport i s = setReports (filter (\<lambda>r. id' r \<noteq> i) (reports s)) s"

text \<open>
  \<^verbatim>\<open>handleClearAll\<close> (lines 143 to 149); the argument is the answer to
  \<^verbatim>\<open>window.confirm\<close>.
\<close>

definition handleClearAll :: "bool \<Rightarrow> App \<Rightarrow> App" where
  "handleClearAll confirmed s =
     (if confirmed
      then setReports []
             (s\<lparr>localStorage := (localStorage s)(STORAGE_KEY := None), error := None\<rparr>)
      else s)"

text \<open>
  \<^verbatim>\<open>handleImportBackup\<close> (lines 165 to 185): the text of the chosen file, if one was
  chosen, and the answer to \<^verbatim>\<open>window.confirm\<close>. A text that does not parse ends in the
  \<^verbatim>\<open>catch\<close>; a parsed value that is not an array is ignored (line 175). A confirmed
  array is handed to \<^verbatim>\<open>setReports\<close> as it is: a list of reports, or an array of
  anything else, and then the outcome is \<open>Unchecked\<close>.
\<close>

definition handleImportBackup :: "string option \<Rightarrow> bool \<Rightarrow> App \<Rightarrow> outcome" where
  "handleImportBackup chosen confirmed s =
     (case chosen of
        None \<Rightarrow> Typed s
      | Some content \<Rightarrow>
          (case JSON_parse content of
             None \<Rightarrow> Typed s
           | Some parsedData \<Rightarrow>
               if isArray parsedData
               then (if confirmed
                     then (case json_reports parsedData of
                             None \<Rightarrow> Unchecked parsedData
                           | Some rs \<Rightarrow> Typed (setReports rs s))
                     else Typed s)
               else Typed s))"

section \<open>Time, and the push\<close>

text \<open>
  \<open>timerFires\<close> is the callback of \<^verbatim>\<open>setTimeout\<close> (lines 85 and 86), \<open>saveSettled\<close>
  the \<^verbatim>\<open>then\<close> and \<^verbatim>\<open>catch\<close> of the promise it starts. \<open>elapse d\<close> lets \<open>d\<close>
  milliseconds pass with no other event: a timer that falls due in that span fires.
\<close>

definition timerFires :: "App \<Rightarrow> App" where
  "timerFires s =
     (case timeoutId s of
        None \<Rightarrow> s
      | Some call \<Rightarrow> s\<lparr>timeoutId := None, syncStatus := Syncing, saveCalls := saveCalls s @ [call]\<rparr>)"

definition elapse :: "nat \<Rightarrow> App \<Rightarrow> App" where
  "elapse d s =
     (case timeoutId s of
        None \<Rightarrow> s\<lparr>clock := clock s + d\<rparr>
      | Some call \<Rightarrow>
          if issuedAt call \<le> clock s + d
          then (timerFires s)\<lparr>clock := clock s + d\<rparr>
          else s\<lparr>clock := clock s + d\<rparr>)"

definition saveSettled :: "bool \<Rightarrow> App \<Rightarrow> App" where
  "saveSettled ok s =
     (if ok then s\<lparr>syncStatus := Synced, lastSyncTime := Some (clock s)\<rparr>
      else s\<lparr>syncStatus := Error\<rparr>)"

definition pull :: "string \<Rightarrow> nat \<Rightarrow> FetchResult \<Rightarrow> App \<Rightarrow> App" where
  "pull url d res s = (if url = [] then s else fetchSettled res (elapse d (handleServerFetch url s)))"

section \<open>Runs\<close>

text \<open>
  Everything that can happen to a mounted component, one event at a time. A
  \<open>session\<close> is a start followed by events. A run goes from typed state to typed
  state, and is \<open>None\<close> from the event on whose outcome is \<open>Unchecked\<close>.
\<close>

datatype event =
    UrlChange string
  | ManualSync
  | FetchSettled FetchResult
  | FileSelect "File list"
  | RemoveReport string
  | ClearAll bool
  | ImportBackup "string option" bool
  | Elapse nat
  | SaveSettled bool

fun step :: "Extractor \<Rightarrow> event \<Rightarrow> App \<Rightarrow> App option" where
  "step adapter (UrlChange newUrl) s = Some (handleUrlChange newUrl s)"
| "step adapter ManualSync s = Some (onManualSync s)"
| "step adapter (FetchSettled res) s = Some (fetchSettled res s)"
| "step adapter (FileSelect files) s = Some (handleFileSelect adapter files s)"
| "step adapter (RemoveReport i) s = Some (handleRemoveReport i s)"
| "step adapter (ClearAll confirmed) s = Some (handleClearAll confirmed s)"
| "step adapter (ImportBackup chosen confirmed) s = typed (handleImportBackup chosen confirmed s)"
| "step adapter (Elapse d) s = Some (elapse d s)"
| "step adapter (SaveSettled ok) s = Some (saveSettled ok s)"

fun run :: "Extractor \<Rightarrow> event list \<Rightarrow> App \<Rightarrow> App option" where
  "run adapter [] s = Some s"
| "run adapter (e # es) s =
     (case step adapter e s of None \<Rightarrow> None | Some s' \<Rightarrow> run adapter es s')"

definition session ::
  "bool \<Rightarrow> (string \<rightharpoonup> string) \<Rightarrow> nat \<Rightarrow> Extractor \<Rightarrow> event list \<Rightarrow> App option" where
  "session batched storage t adapter es =
     (case mount batched storage t of None \<Rightarrow> None | Some s \<Rightarrow> run adapter es s)"

section \<open>Notions for the properties\<close>

text \<open>
  Two reports and two ready-made states for the examples, and the notions in which the
  properties below are stated.
\<close>

definition reportA :: FlightReport where
  "reportA = \<lparr>id' = ''a1'', aircraftId = ''XY-AGA'', date = ''2024-01-02'',
     flightNumber = ''8M231'', cityPair = ''RGN-MDL'',
     faults = [\<lparr>time = ''0412'', phase = ''06'', ata = ''21-31'', description = ''PACK 1 FAULT''\<rparr>],
     failures = [], rawText = None, timestamp = 41\<rparr>"

definition reportB :: FlightReport where
  "reportB = \<lparr>id' = ''b2'', aircraftId = ''XY-AGB'', date = ''2024-01-03'',
     flightNumber = ''8M232'', cityPair = ''MDL-RGN'', faults = [],
     failures = [\<lparr>time' = ''0518'', source = ''FCDC'', identifier' = ''2CE1'', description' = ''ELAC 1''\<rparr>],
     rawText = Some ''PFR'', timestamp = 42\<rparr>"

text \<open>
  A store that holds the endpoint \<open>url\<close> and the collection \<open>rs\<close>; the component
  as it stands after a start on that store, its startup pull under way; and the
  component after that pull has found the remote empty.
\<close>

definition stored :: "string \<Rightarrow> FlightReport list \<Rightarrow> (string \<rightharpoonup> string)" where
  "stored url rs = Map.empty(SERVER_URL_KEY \<mapsto> url, STORAGE_KEY \<mapsto> JSON_stringify rs)"

definition starting :: "bool \<Rightarrow> string \<Rightarrow> FlightReport list \<Rightarrow> App" where
  "starting batched url rs =
     (initialApp batched (stored url rs) 0)
       \<lparr>reports := rs, serverUrl := url, syncStatus := Syncing, fetchCalls := [url]\<rparr>"

definition running :: "bool \<Rightarrow> string \<Rightarrow> FlightReport list \<Rightarrow> App" where
  "running batched url rs = fetchSettled (Resolved None) (starting batched url rs)"

text \<open>
  The answers of the adapter to a batch, in the order of the input: each document is
  asked with the calls made so far, which end with the documents before it. The
  accepted reports are the successes among the answers, the failure count is the number
  of the others.
\<close>

fun answers :: "Extractor \<Rightarrow> File list \<Rightarrow> File list \<Rightarrow> (string + FlightReport) list" where
  "answers adapter calls [] = []"
| "answers adapter calls (doc # docs) = adapter calls doc # answers adapter (calls @ [doc]) docs"

fun accepted :: "(string + FlightReport) list \<Rightarrow> FlightReport list" where
  "accepted [] = []"
| "accepted (Inr r # xs) = r # accepted xs"
| "accepted (Inl e # xs) = accepted xs"

fun failureCount :: "(string + FlightReport) list \<Rightarrow> nat" where
  "failureCount [] = 0"
| "failureCount (Inr r # xs) = failureCount xs"
| "failureCount (Inl e # xs) = Suc (failureCount xs)"

text \<open>
  An adapter for the examples: it fails on the picture named \<^verbatim>\<open>blurred.jpg\<close> and
  otherwise answers with a report named after the document and stamped with the number
  of calls before this one.
\<close>

definition demoExtract :: Extractor where
  "demoExtract calls f =
     (if fileName f = ''blurred.jpg'' then Inl ''no report in the picture''
      else Inr (reportA\<lparr>id' := fileName f, timestamp := length calls\<rparr>))"

text \<open>
  The identifiers of the collection are unique. An event \<open>admits\<close> uniqueness in a
  state when what it brings has no identifier twice: the fetched collection, the
  imported collection, the reports accepted from a batch together with the collection
  they join.
\<close>

definition uniqueIds :: "App \<Rightarrow> bool" where
  "uniqueIds s = distinct (map id' (reports s))"

fun admits :: "Extractor \<Rightarrow> event \<Rightarrow> App \<Rightarrow> bool" where
  "admits adapter (FetchSettled (Resolved (Some rs))) s = distinct (map id' rs)"
| "admits adapter (ImportBackup (Some content) True) s =
     (case JSON_parse content of
        None \<Rightarrow> True
      | Some v \<Rightarrow> (case json_reports v of None \<Rightarrow> True | Some rs \<Rightarrow> distinct (map id' rs)))"
| "admits adapter (FileSelect files) s =
     distinct (map id' (accepted (answers adapter (extractCalls s) files)) @ map id' (reports s))"
| "admits adapter e s = True"

fun admitted :: "Extractor \<Rightarrow> event list \<Rightarrow> App \<Rightarrow> bool" where
  "admitted adapter [] s = True"
| "admitted adapter (e # es) s =
     (admits adapter e s
      \<and> (case step adapter e s of None \<Rightarrow> True | Some s' \<Rightarrow> admitted adapter es s'))"

text \<open>
  The four mutations of the collection: a report added (one successful step of the
  ingestion loop), a report removed, the collection cleared (confirmed), the collection
  replaced (a confirmed import). A burst is a first mutation followed by further ones,
  each after a gap of so many milliseconds.
\<close>

datatype mutation = Add FlightReport | Remove string | Clear | Replace "FlightReport list"

fun mutate :: "mutation \<Rightarrow> App \<Rightarrow> App" where
  "mutate (Add r) s = setReports (r # reports s) s"
| "mutate (Remove i) s = handleRemoveReport i s"
| "mutate Clear s = handleClearAll True s"
| "mutate (Replace rs) s = setReports rs s"

fun burst :: "mutation \<Rightarrow> (nat \<times> mutation) list \<Rightarrow> App \<Rightarrow> App" where
  "burst m [] s = mutate m s"
| "burst m ((gap, m') # rest) s = burst m' rest (elapse gap (mutate m s))"

text \<open>
  The flag \<^verbatim>\<open>isInitialLoad\<close> is up from the first render, and is lowered in two places
  only: by the first effect when no endpoint is saved, and by the \<^verbatim>\<open>finally\<close> of
  \<^verbatim>\<open>handleServerFetch\<close> when a pull settles. No line raises it again. An event
  \<open>settles\<close> when it is the settling of a pull.
\<close>

fun settles :: "event \<Rightarrow> bool" where
  "settles (FetchSettled res) = True"
| "settles e = False"

section \<open>What is read is what was written\<close>

text \<open>
  \<open>tokens\<close> are the tokens of a value, \<open>plain\<close> values hold only numbers written
  as a natural number and strings of characters, and \<open>delim\<close> is what may follow a
  value inside a text. A report is \<open>storable\<close> when its strings are strings of
  characters and its timestamp is within the bound of \<open>read_nat\<close>.
\<close>

fun tokens :: "json \<Rightarrow> token list" where
  "tokens JNull = [TNull]"
| "tokens (JBool b) = [if b then TTrue else TFalse]"
| "tokens (JNumber lit) = [TNum lit]"
| "tokens (JString s) = [TStr s]"
| "tokens (JArray vs) = LBrack # join [Comma] (map tokens vs) @ [RBrack]"
| "tokens (JObject ms) =
     LBrace # join [Comma] (map (\<lambda>(k, v). TStr k # Colon # tokens v) ms) @ [RBrace]"

inductive plain :: "json \<Rightarrow> bool" where
  plain_null: "plain JNull"
| plain_bool: "plain (JBool b)"
| plain_num: "plain_number lit \<Longrightarrow> plain (JNumber lit)"
| plain_str: "scalar s \<Longrightarrow> plain (JString s)"
| plain_arr: "(\<And>v. v \<in> set vs \<Longrightarrow> plain v) \<Longrightarrow> plain (JArray vs)"
| plain_obj: "(\<And>k v. (k, v) \<in> set ms \<Longrightarrow> scalar k) \<Longrightarrow> (\<And>k v. (k, v) \<in> set ms \<Longrightarrow> plain v)
               \<Longrightarrow> plain (JObject ms)"

definition storable :: "FlightReport \<Rightarrow> bool" where
  "storable r =
     (scalar (id' r) \<and> scalar (aircraftId r) \<and> scalar (date r) \<and> scalar (flightNumber r)
      \<and> scalar (cityPair r)
      \<and> list_all (\<lambda>f. scalar (time f) \<and> scalar (phase f) \<and> scalar (ata f) \<and> scalar (description f))
            (faults r)
      \<and> list_all (\<lambda>f. scalar (time' f) \<and> scalar (source f) \<and> scalar (identifier' f)
                       \<and> scalar (description' f))
            (failures r)
      \<and> (case rawText r of None \<Rightarrow> True | Some t \<Rightarrow> scalar t)
      \<and> timestamp r \<le> 9007199254740992)"

definition delim :: "string \<Rightarrow> bool" where
  "delim rest =
     (case rest of [] \<Rightarrow> True
      | c # _ \<Rightarrow> c = CHR '','' \<or> c = CHR '']'' \<or> c = CHR ''}'')"

lemma emit_simps [simp]:
  "emit [] r = r"
  "emit ts None = None"
  "emit ts (Some us) = Some (ts @ us)"
  "emit ts (emit us r) = emit (ts @ us) r"
  by (cases r; simp add: emit_def)+

lemma hex_val_zero: "hex_val (CHR ''0'') = Some 0"
  by (simp add: hex_val_def)

lemma hex_val_hex_char: "d < 16 \<Longrightarrow> hex_val (hex_char d) = Some d"
  by (auto simp: hex_val_def hex_char_def Let_def)

lemma lex_quote_char:
  "lex (InStr acc) (quote_char c @ rest) = lex (InStr (acc @ [c])) rest"
proof (cases "(of_char c :: nat) < 32")
  case False
  then show ?thesis
    by (auto simp: quote_char_def unescape_def)
next
  case True
  then have d: "(of_char c :: nat) div 16 < 16" "(of_char c :: nat) mod 16 < 16"
    by auto
  have u: "utf8 (of_char c) = [c]"
    using True by (simp add: utf8_def)
  show ?thesis
    using True by (auto simp: quote_char_def unescape_def hex_val_hex_char [OF d(1)] hex_val_hex_char [OF d(2)] u hex_val_zero)
qed

lemma join_surrogates_scalar: "scalar s \<Longrightarrow> join_surrogates s = s"
  by (induction s rule: join_surrogates.induct)
     (auto simp: surrogate_def Let_def join_surrogates.simps)

lemma lex_quoted_body:
  "lex (InStr acc) (concat (map quote_char s) @ CHR 0x22 # rest)
     = emit [TStr (join_surrogates (acc @ s))] (lex Between rest)"
proof (induction s arbitrary: acc)
  case Nil
  show ?case by simp
next
  case (Cons c s)
  show ?case
    using Cons.IH [of "acc @ [c]"] by (simp add: lex_quote_char)
qed

lemma lex_quote:
  "scalar s \<Longrightarrow> lex Between (quote s @ rest) = emit [TStr s] (lex Between rest)"
  using lex_quoted_body [of "[]" s rest]
  by (simp add: quote_def idle_def is_space_def is_digit_def join_surrogates_scalar)

lemma delim_intros [simp]:
  "delim []" "delim (CHR '','' # r)" "delim (CHR '']'' # r)" "delim (CHR ''}'' # r)"
  by (simp_all add: delim_def)

lemma lex_punct:
  "lex Between (CHR ''['' # rest) = emit [LBrack] (lex Between rest)"
  "lex Between (CHR '']'' # rest) = emit [RBrack] (lex Between rest)"
  "lex Between (CHR ''{'' # rest) = emit [LBrace] (lex Between rest)"
  "lex Between (CHR ''}'' # rest) = emit [RBrace] (lex Between rest)"
  "lex Between (CHR '','' # rest) = emit [Comma] (lex Between rest)"
  "lex Between (CHR '':'' # rest) = emit [Colon] (lex Between rest)"
  by (simp_all add: idle_def is_space_def is_digit_def)

lemma lex_number_end:
  assumes "delim rest" and "p = NZero \<or> p = NInt"
  shows "lex (InNum p lit) rest = emit [TNum lit] (lex Between rest)"
proof (cases rest)
  case Nil
  with assms(2) show ?thesis by (auto simp: accepting_def)
next
  case (Cons c cs)
  with assms(1) consider "c = CHR '',''" | "c = CHR '']''" | "c = CHR ''}''"
    by (auto simp: delim_def)
  then show ?thesis
  proof cases
    case 1
    with assms(2) Cons show ?thesis
      by (auto simp: accepting_def is_digit_def idle_def is_space_def)
  next
    case 2
    with assms(2) Cons show ?thesis
      by (auto simp: accepting_def is_digit_def idle_def is_space_def)
  next
    case 3
    with assms(2) Cons show ?thesis
      by (auto simp: accepting_def is_digit_def idle_def is_space_def)
  qed
qed

lemma lex_digits:
  "list_all is_digit ds \<Longrightarrow> delim rest \<Longrightarrow>
   lex (InNum NInt lit) (ds @ rest) = emit [TNum (lit @ ds)] (lex Between rest)"
proof (induction ds arbitrary: lit)
  case Nil
  then show ?case by (simp add: lex_number_end)
next
  case (Cons d ds)
  then show ?case by simp
qed

lemma is_digit_not_punct:
  assumes "is_digit d"
  shows "\<not> is_space d" "d \<noteq> CHR ''{''" "d \<noteq> CHR ''}''" "d \<noteq> CHR ''[''" "d \<noteq> CHR '']''"
    "d \<noteq> CHR '':''" "d \<noteq> CHR '',''" "d \<noteq> CHR 0x22" "d \<noteq> CHR ''-''"
  using assms by (auto simp: is_digit_def is_space_def)

lemma idle_digit:
  "is_digit d \<Longrightarrow> idle d = Some ([], InNum (if d = CHR ''0'' then NZero else NInt) [d])"
  by (simp add: idle_def is_digit_not_punct)

lemma lex_plain_number:
  assumes "plain_number lit" and "delim rest"
  shows "lex Between (lit @ rest) = emit [TNum lit] (lex Between rest)"
proof (cases lit)
  case Nil
  with assms show ?thesis by (simp add: plain_number_def)
next
  case (Cons d ds)
  with assms have d: "is_digit d" "list_all is_digit ds" "d = CHR ''0'' \<longrightarrow> ds = []"
    by (simp_all add: plain_number_def)
  show ?thesis
  proof (cases "d = CHR ''0''")
    case True
    with d have "ds = []" by simp
    with True Cons assms(2) d(1) show ?thesis
      by (simp add: idle_digit lex_number_end)
  next
    case False
    with Cons assms(2) d show ?thesis
      by (simp add: idle_digit lex_digits)
  qed
qed

lemma lex_literals:
  "lex Between (''null'' @ rest) = emit [TNull] (lex Between rest)"
  "lex Between (''true'' @ rest) = emit [TTrue] (lex Between rest)"
  "lex Between (''false'' @ rest) = emit [TFalse] (lex Between rest)"
  by (simp_all add: idle_def is_space_def is_digit_def)

lemma lex_join:
  assumes item: "\<And>x r. x \<in> set xs \<Longrightarrow> delim r \<Longrightarrow>
                   lex Between (f x @ r) = emit (g x) (lex Between r)"
    and d: "delim r"
  shows "lex Between (join '','' (map f xs) @ r) = emit (join [Comma] (map g xs)) (lex Between r)"
  using item
proof (induction xs rule: induct_list012)
  case 1
  show ?case by simp
next
  case (2 x)
  then show ?case using d by simp
next
  case (3 x y zs)
  have "lex Between (f x @ CHR '','' # join '','' (map f (y # zs)) @ r)
          = emit (g x) (lex Between (CHR '','' # join '','' (map f (y # zs)) @ r))"
    using 3(3) [of x] by (simp del: lex.simps(2))
  moreover have "lex Between (join '','' (map f (y # zs)) @ r)
          = emit (join [Comma] (map g (y # zs))) (lex Between r)"
    using 3(2) 3(3) by simp
  ultimately show ?case
    by (simp add: lex_punct del: lex.simps(2))
qed

lemma lex_stringify:
  "plain v \<Longrightarrow> delim rest \<Longrightarrow> lex Between (stringify v @ rest) = emit (tokens v) (lex Between rest)"
proof (induction v arbitrary: rest rule: plain.induct)
  case plain_null
  show ?case using lex_literals(1) by simp
next
  case (plain_bool b)
  show ?case using lex_literals(2,3) by simp
next
  case (plain_num lit)
  then show ?case by (simp add: lex_plain_number)
next
  case (plain_str s)
  then show ?case by (simp add: lex_quote)
next
  case (plain_arr vs)
  have "lex Between (join '','' (map stringify vs) @ CHR '']'' # rest)
          = emit (join [Comma] (map tokens vs)) (lex Between (CHR '']'' # rest))"
    by (rule lex_join) (use plain_arr in \<open>simp_all del: lex.simps(2)\<close>)
  then show ?case
    by (simp add: lex_punct del: lex.simps(2))
next
  case (plain_obj ms)
  have "lex Between (join '','' (map (\<lambda>(k, v). quote k @ CHR '':'' # stringify v) ms) @ CHR ''}'' # rest)
          = emit (join [Comma] (map (\<lambda>(k, v). TStr k # Colon # tokens v) ms))
              (lex Between (CHR ''}'' # rest))"
  proof (rule lex_join)
    fix x r
    assume x: "x \<in> set ms" and r: "delim r"
    obtain k v where kv: "x = (k, v)" by (cases x)
    have k: "scalar k"
      using plain_obj.hyps [of k v] x kv by simp
    have "lex Between (stringify v @ r) = emit (tokens v) (lex Between r)"
      using plain_obj.IH [of k v r] x r kv by simp
    with k show "lex Between ((case x of (k, v) \<Rightarrow> quote k @ CHR '':'' # stringify v) @ r)
                 = emit (case x of (k, v) \<Rightarrow> TStr k # Colon # tokens v) (lex Between r)"
      by (simp add: kv lex_quote lex_punct del: lex.simps(2))
  qed simp
  then show ?case
    by (simp add: lex_punct del: lex.simps(2))
qed

lemma tokens_nonempty: "tokens v \<noteq> []"
  by (cases v) simp_all

lemma hd_tokens: "hd (tokens v) \<noteq> RBrack" "hd (tokens v) \<noteq> RBrace"
  by (cases v; simp)+

lemma parse_elements_join:
  assumes item: "\<And>v n rest. v \<in> set vs \<Longrightarrow> length (tokens v) \<le> n \<Longrightarrow>
                   parse_value n (tokens v @ rest) = Some (v, rest)"
    and "vs \<noteq> []"
    and "length (join [Comma] (map tokens vs)) < n"
  shows "parse_elements n (join [Comma] (map tokens vs) @ RBrack # rest) = Some (vs, rest)"
  using assms
proof (induction vs arbitrary: n rule: induct_list012)
  case 1
  then show ?case by simp
next
  case (2 v)
  then obtain m where n: "n = Suc m" by (cases n) auto
  with 2 have "parse_value m (tokens v @ RBrack # rest) = Some (v, RBrack # rest)" by simp
  with n show ?case by simp
next
  case (3 v w ws)
  then obtain m where n: "n = Suc m" by (cases n) auto
  from 3(5) n have len: "length (tokens v) \<le> m" "length (join [Comma] (map tokens (w # ws))) < m"
    by simp_all
  have "parse_value m (tokens v @ Comma # join [Comma] (map tokens (w # ws)) @ RBrack # rest)
          = Some (v, Comma # join [Comma] (map tokens (w # ws)) @ RBrack # rest)"
    using 3(3) [of v m] len(1) by simp
  moreover have "parse_elements m (join [Comma] (map tokens (w # ws)) @ RBrack # rest) = Some (w # ws, rest)"
    using 3(2) [of m] 3(3) len(2) by simp
  ultimately show ?case using n by simp
qed

lemma parse_members_join:
  assumes item: "\<And>k v n rest. (k, v) \<in> set ms \<Longrightarrow> length (tokens v) \<le> n \<Longrightarrow>
                   parse_value n (tokens v @ rest) = Some (v, rest)"
    and "ms \<noteq> []"
    and "length (join [Comma] (map (\<lambda>(k, v). TStr k # Colon # tokens v) ms)) < n"
  shows "parse_members n (join [Comma] (map (\<lambda>(k, v). TStr k # Colon # tokens v) ms) @ RBrace # rest)
           = Some (ms, rest)"
  using assms
proof (induction ms arbitrary: n rule: induct_list012)
  case 1
  then show ?case by simp
next
  case (2 x)
  obtain k v where kv: "x = (k, v)" by (cases x)
  from 2 obtain m where n: "n = Suc m" by (cases n) auto
  with 2 kv have "parse_value m (tokens v @ RBrace # rest) = Some (v, RBrace # rest)" by simp
  with n kv show ?case by simp
next
  case (3 x y zs)
  obtain k v where kv: "x = (k, v)" by (cases x)
  from 3 obtain m where n: "n = Suc m" by (cases n) auto
  let ?tl = "join [Comma] (map (\<lambda>(k, v). TStr k # Colon # tokens v) (y # zs))"
  from 3(5) n kv have len: "length (tokens v) \<le> m" "length ?tl < m"
    by simp_all
  have "parse_value m (tokens v @ Comma # ?tl @ RBrace # rest) = Some (v, Comma # ?tl @ RBrace # rest)"
    using 3(3) [of k v m] len(1) kv by simp
  moreover have "parse_members m (?tl @ RBrace # rest) = Some (y # zs, rest)"
    by (rule 3(2)) (use 3(3) len(2) in auto)
  ultimately show ?case using n kv by simp
qed

lemma parse_value_LBrack:
  "ts \<noteq> [] \<Longrightarrow> hd ts \<noteq> RBrack \<Longrightarrow>
   parse_value (Suc n) (LBrack # ts) = map_option (\<lambda>(vs, r). (JArray vs, r)) (parse_elements n ts)"
  by (cases ts; cases "hd ts"; simp)

lemma parse_value_LBrace:
  "ts \<noteq> [] \<Longrightarrow> hd ts \<noteq> RBrace \<Longrightarrow>
   parse_value (Suc n) (LBrace # ts) = map_option (\<lambda>(ms, r). (JObject ms, r)) (parse_members n ts)"
  by (cases ts; cases "hd ts"; simp)

lemma hd_join: "xs \<noteq> [] \<Longrightarrow> hd xs \<noteq> [] \<Longrightarrow> hd (join sep xs @ r) = hd (hd xs)"
  by (induction xs rule: induct_list012) simp_all

lemma parse_value_tokens:
  "length (tokens v) \<le> n \<Longrightarrow> parse_value n (tokens v @ rest) = Some (v, rest)"
proof (induction v arbitrary: n rest)
  case JNull
  then show ?case by (cases n) simp_all
next
  case (JBool b)
  then show ?case by (cases n) simp_all
next
  case (JNumber lit)
  then show ?case by (cases n) simp_all
next
  case (JString s)
  then show ?case by (cases n) simp_all
next
  case (JArray vs)
  then obtain m where n: "n = Suc m" by (cases n) auto
  show ?case
  proof (cases vs)
    case Nil
    with n show ?thesis by simp
  next
    case (Cons w ws)
    let ?body = "join [Comma] (map tokens vs)"
    have "parse_elements m (?body @ RBrack # rest) = Some (vs, rest)"
    proof (rule parse_elements_join)
      show "vs \<noteq> []" using Cons by simp
      show "length ?body < m" using JArray.prems n by simp
    qed (use JArray.IH in simp)
    moreover have "hd (?body @ RBrack # rest) \<noteq> RBrack"
      using Cons hd_join [of "map tokens vs" "[Comma]" "RBrack # rest"] hd_tokens(1) [of w] tokens_nonempty [of w]
      by simp
    ultimately show ?thesis
      using n parse_value_LBrack [of "?body @ RBrack # rest" m] by simp
  qed
next
  case (JObject ms)
  then obtain m where n: "n = Suc m" by (cases n) auto
  show ?case
  proof (cases ms)
    case Nil
    with n show ?thesis by simp
  next
    case (Cons x xs)
    obtain k v where kv: "x = (k, v)" by (cases x)
    let ?body = "join [Comma] (map (\<lambda>(k, v). TStr k # Colon # tokens v) ms)"
    have "parse_members m (?body @ RBrace # rest) = Some (ms, rest)"
    proof (rule parse_members_join)
      show "ms \<noteq> []" using Cons by simp
      show "length ?body < m" using JObject.prems n by simp
      fix k v n rest
      assume "(k, v) \<in> set ms" and "length (tokens v) \<le> n"
      then show "parse_value n (tokens v @ rest) = Some (v, rest)"
        using JObject.IH [of "(k, v)" v n rest] by simp
    qed
    moreover have "hd (?body @ RBrace # rest) \<noteq> RBrace"
      using Cons kv hd_join [of "map (\<lambda>(k, v). TStr k # Colon # tokens v) ms" "[Comma]" "RBrace # rest"]
      by simp
    ultimately show ?thesis
      using n parse_value_LBrace [of "?body @ RBrace # rest" m] by simp
  qed
qed

lemma JSON_parse_stringify: "plain v \<Longrightarrow> JSON_parse (stringify v) = Some v"
  using lex_stringify [of v "[]"] parse_value_tokens [of v "Suc (length (tokens v))" "[]"]
  by (simp add: JSON_parse_def)

lemma digit_char_zero: "digit_char 0 = CHR ''0''"
proof -
  have "(of_char (digit_char 0) :: nat) = of_char (CHR ''0'')"
    by (simp add: digit_char_def)
  then show ?thesis by (simp only: of_char_eq_iff)
qed

lemma digit_char_facts:
  assumes "d < 10"
  shows "is_digit (digit_char d)" "digit_val (digit_char d) = d" "(digit_char d = CHR ''0'') = (d = 0)"
proof -
  show "is_digit (digit_char d)" "digit_val (digit_char d) = d"
    using assms by (simp_all add: is_digit_def digit_char_def digit_val_def)
  have "(digit_char d = CHR ''0'') = ((of_char (digit_char d) :: nat) = of_char (CHR ''0''))"
    by (simp only: of_char_eq_iff)
  also have "\<dots> = (d = 0)"
    using assms by (simp add: digit_char_def)
  finally show "(digit_char d = CHR ''0'') = (d = 0)" .
qed

lemma show_nat_digits: "list_all is_digit (show_nat n)"
  by (induction n rule: show_nat.induct) (subst show_nat.simps, simp add: digit_char_facts)

lemma show_nat_nonempty: "show_nat n \<noteq> []"
  by (subst show_nat.simps) simp

lemma hd_show_nat: "0 < n \<Longrightarrow> hd (show_nat n) \<noteq> CHR ''0''"
proof (induction n rule: show_nat.induct)
  case (1 n)
  show ?case
  proof (cases "n < 10")
    case True
    with 1(2) show ?thesis by (subst show_nat.simps) (simp add: digit_char_facts)
  next
    case False
    then have "0 < n div 10" by simp
    with False 1 show ?thesis by (subst show_nat.simps) (simp add: show_nat_nonempty)
  qed
qed

lemma plain_number_show_nat: "plain_number (show_nat n)"
proof (cases "show_nat n")
  case Nil
  then show ?thesis using show_nat_nonempty by simp
next
  case (Cons d ds)
  have "d = CHR ''0'' \<longrightarrow> ds = []"
  proof (cases "n = 0")
    case True
    then have "show_nat n = ''0''" by (subst show_nat.simps) (simp add: digit_char_zero)
    with Cons show ?thesis by simp
  next
    case False
    with hd_show_nat [of n] Cons show ?thesis by simp
  qed
  with Cons show_nat_digits [of n] show ?thesis by (simp add: plain_number_def)
qed

lemma foldl_show_nat: "foldl (\<lambda>n c. 10 * n + digit_val c) 0 (show_nat n) = n"
  by (induction n rule: show_nat.induct) (subst show_nat.simps, simp add: digit_char_facts)

lemma foldl_digits_int:
  "foldl (\<lambda>v c. 10 * v + int (digit_val c)) (int a) lit
     = int (foldl (\<lambda>n c. 10 * n + digit_val c) a lit)"
proof (induction lit arbitrary: a)
  case Nil
  show ?case by simp
next
  case (Cons c lit)
  have "10 * int a + int (digit_val c) = int (10 * a + digit_val c)" by simp
  then show ?case using Cons.IH [of "10 * a + digit_val c"] by simp
qed

lemma read_nat_show_nat: "n \<le> 9007199254740992 \<Longrightarrow> read_nat (show_nat n) = Some n"
  using foldl_digits_int [of 0 "show_nat n"]
  by (simp add: read_nat_def plain_number_show_nat foldl_show_nat)

lemma read_nat_bound: "read_nat lit = Some n \<Longrightarrow> n \<le> 9007199254740992"
  by (auto simp: read_nat_def Let_def split: if_splits)

lemma those_map_roundtrip:
  "(\<And>x. x \<in> set xs \<Longrightarrow> g (f x) = Some x) \<Longrightarrow> those (map (g \<circ> f) xs) = Some xs"
  by (induction xs) simp_all

lemma json_fault_fault_json:
  "scalar (time f) \<and> scalar (phase f) \<and> scalar (ata f) \<and> scalar (description f) \<Longrightarrow>
   json_fault (fault_json f) = Some f"
  by (simp add: fault_json_def str_prop_def property_def)

lemma json_failure_failure_json:
  "scalar (time' f) \<and> scalar (source f) \<and> scalar (identifier' f) \<and> scalar (description' f) \<Longrightarrow>
   json_failure (failure_json f) = Some f"
  by (simp add: failure_json_def str_prop_def property_def)

lemma json_report_report_json:
  assumes "storable r"
  shows "json_report (report_json r) = Some r"
proof -
  have fl: "those (map (json_fault \<circ> fault_json) (faults r)) = Some (faults r)"
    using assms by (intro those_map_roundtrip) (simp add: storable_def list_all_iff json_fault_fault_json)
  have fa: "those (map (json_failure \<circ> failure_json) (failures r)) = Some (failures r)"
    using assms by (intro those_map_roundtrip) (simp add: storable_def list_all_iff json_failure_failure_json)
  have n: "read_nat (show_nat (timestamp r)) = Some (timestamp r)"
    using assms by (simp add: storable_def read_nat_show_nat)
  show ?thesis
    using assms fl fa n
    by (cases "rawText r")
       (simp_all add: storable_def report_json_def str_prop_def opt_str_prop_def arr_prop_def
          num_prop_def property_def)
qed

lemma json_reports_reports_json:
  "list_all storable rs \<Longrightarrow> json_reports (reports_json rs) = Some rs"
  by (simp add: json_reports_def reports_json_def those_map_roundtrip json_report_report_json
      list_all_iff)

lemma plain_reports_json:
  assumes "list_all storable rs"
  shows "plain (reports_json rs)"
proof -
  have "plain (report_json r)" if "storable r" for r
    using that unfolding report_json_def
    by (intro plain.intros)
       (auto simp: storable_def list_all_iff fault_json_def failure_json_def plain_number_show_nat
          intro!: plain.intros split: option.splits)
  with assms show ?thesis
    unfolding reports_json_def by (intro plain.intros) (auto simp: list_all_iff)
qed

lemma JSON_parse_JSON_stringify:
  "list_all storable rs \<Longrightarrow> JSON_parse (JSON_stringify rs) = Some (reports_json rs)"
  by (simp add: JSON_stringify_def JSON_parse_stringify plain_reports_json)

lemma JSON_stringify_nonempty: "JSON_stringify rs \<noteq> []"
  by (simp add: JSON_stringify_def reports_json_def)

text \<open>
  The bound is enough. What the descent accepts, with whatever bound, is the token
  sequence of the value it returns; so it is accepted with the bound \<open>JSON_parse\<close>
  gives, and \<open>JSON_parse\<close> answers \<open>None\<close> only for a text that no bound would
  accept.
\<close>

lemma parse_sound:
  "(\<forall>ts v rest. parse_value n ts = Some (v, rest) \<longrightarrow> ts = tokens v @ rest)
   \<and> (\<forall>ts vs rest. parse_elements n ts = Some (vs, rest)
         \<longrightarrow> vs \<noteq> [] \<and> ts = join [Comma] (map tokens vs) @ RBrack # rest)
   \<and> (\<forall>ts ms rest. parse_members n ts = Some (ms, rest)
         \<longrightarrow> ms \<noteq> [] \<and> ts = join [Comma] (map (\<lambda>(k, v). TStr k # Colon # tokens v) ms) @ RBrace # rest)"
proof (induction n)
  case 0
  show ?case by simp
next
  case (Suc n)
  have v: "ts = tokens v @ rest" if "parse_value (Suc n) ts = Some (v, rest)" for ts v rest
  proof (cases ts)
    case Nil
    with that show ?thesis by simp
  next
    case (Cons t ts')
    show ?thesis
    proof (cases t)
      case LBrack
      show ?thesis
      proof (cases "\<exists>r. ts' = RBrack # r")
        case True
        with that Cons LBrack show ?thesis by auto
      next
        case False
        with that Cons LBrack obtain vs where
          "parse_elements n ts' = Some (vs, rest)" "v = JArray vs"
          by (cases ts'; cases "hd ts'"; auto)
        with Suc Cons LBrack show ?thesis by auto
      qed
    next
      case LBrace
      show ?thesis
      proof (cases "\<exists>r. ts' = RBrace # r")
        case True
        with that Cons LBrace show ?thesis by auto
      next
        case False
        with that Cons LBrace obtain ms where
          "parse_members n ts' = Some (ms, rest)" "v = JObject ms"
          by (cases ts'; cases "hd ts'"; auto)
        with Suc Cons LBrace show ?thesis by auto
      qed
    qed (use that Cons in auto)
  qed
  have e: "vs \<noteq> [] \<and> ts = join [Comma] (map tokens vs) @ RBrack # rest"
    if "parse_elements (Suc n) ts = Some (vs, rest)" for ts vs rest
  proof -
    from that obtain x ts1 where x: "parse_value n ts = Some (x, ts1)"
      by (auto split: option.splits)
    with Suc have ts: "ts = tokens x @ ts1" by blast
    show ?thesis
    proof (cases "\<exists>r. ts1 = Comma # r")
      case True
      then obtain r where r: "ts1 = Comma # r" by blast
      with that x obtain ws where ws: "parse_elements n r = Some (ws, rest)" "vs = x # ws"
        by auto
      with Suc have "ws \<noteq> [] \<and> r = join [Comma] (map tokens ws) @ RBrack # rest" by blast
      with ts r ws show ?thesis by (cases ws) auto
    next
      case False
      with that x have "ts1 = RBrack # rest \<and> vs = [x]"
        by (cases ts1; cases "hd ts1"; auto)
      with ts show ?thesis by simp
    qed
  qed
  have m: "ms \<noteq> [] \<and> ts = join [Comma] (map (\<lambda>(k, v). TStr k # Colon # tokens v) ms) @ RBrace # rest"
    if "parse_members (Suc n) ts = Some (ms, rest)" for ts ms rest
  proof -
    from that obtain k ts0 where k: "ts = TStr k # Colon # ts0"
      by (auto split: list.splits token.splits)
    with that obtain x ts1 where x: "parse_value n ts0 = Some (x, ts1)"
      by (auto split: option.splits)
    with Suc have ts: "ts0 = tokens x @ ts1" by blast
    show ?thesis
    proof (cases "\<exists>r. ts1 = Comma # r")
      case True
      then obtain r where r: "ts1 = Comma # r" by blast
      with that k x obtain ws where ws: "parse_members n r = Some (ws, rest)" "ms = (k, x) # ws"
        by auto
      with Suc have "ws \<noteq> [] \<and> r = join [Comma] (map (\<lambda>(k, v). TStr k # Colon # tokens v) ws) @ RBrace # rest"
        by blast
      with ts k r ws show ?thesis by (cases ws) auto
    next
      case False
      with that k x have "ts1 = RBrace # rest \<and> ms = [(k, x)]"
        by (cases ts1; cases "hd ts1"; auto)
      with ts k show ?thesis by simp
    qed
  qed
  from v e m show ?case by blast
qed

lemma parse_value_bound:
  assumes "parse_value n ts = Some (v, rest)"
  shows "parse_value (Suc (length ts)) ts = Some (v, rest)"
proof -
  from assms parse_sound [of n] have "ts = tokens v @ rest" by blast
  then show ?thesis
    using parse_value_tokens [of v "Suc (length ts)" rest] by simp
qed

section \<open>What the effect and the handlers leave alone\<close>

lemma autoSaveEffect_fields [simp]:
  "reports (autoSaveEffect s) = reports s"
  "serverUrl (autoSaveEffect s) = serverUrl s"
  "isInitialLoad (autoSaveEffect s) = isInitialLoad s"
  "syncStatus (autoSaveEffect s) = syncStatus s"
  "lastSyncTime (autoSaveEffect s) = lastSyncTime s"
  "clock (autoSaveEffect s) = clock s"
  "saveCalls (autoSaveEffect s) = saveCalls s"
  "fetchCalls (autoSaveEffect s) = fetchCalls s"
  "extractCalls (autoSaveEffect s) = extractCalls s"
  "batchedUpdates (autoSaveEffect s) = batchedUpdates s"
  "error (autoSaveEffect s) = error s"
  by (simp_all add: autoSaveEffect_def Let_def)

lemma timeoutId_autoSaveEffect:
  "timeoutId (autoSaveEffect s) =
     (if serverUrl s \<noteq> [] \<and> \<not> isInitialLoad s
      then Some (SaveCall (clock s + 1000) (serverUrl s) (reports s)) else None)"
  by (simp add: autoSaveEffect_def Let_def)

lemma localStorage_autoSaveEffect:
  "localStorage (autoSaveEffect s) =
     (if reports s \<noteq> [] then (localStorage s)(STORAGE_KEY \<mapsto> JSON_stringify (reports s))
      else localStorage s)"
  by (simp add: autoSaveEffect_def Let_def)

lemma setReports_fields [simp]:
  "reports (setReports rs s) = rs"
  "serverUrl (setReports rs s) = serverUrl s"
  "isInitialLoad (setReports rs s) = isInitialLoad s"
  "syncStatus (setReports rs s) = syncStatus s"
  "lastSyncTime (setReports rs s) = lastSyncTime s"
  "clock (setReports rs s) = clock s"
  "saveCalls (setReports rs s) = saveCalls s"
  "fetchCalls (setReports rs s) = fetchCalls s"
  "extractCalls (setReports rs s) = extractCalls s"
  "batchedUpdates (setReports rs s) = batchedUpdates s"
  "error (setReports rs s) = error s"
  by (simp_all add: setReports_def)

lemma timeoutId_setReports:
  "timeoutId (setReports rs s) =
     (if serverUrl s \<noteq> [] \<and> \<not> isInitialLoad s
      then Some (SaveCall (clock s + 1000) (serverUrl s) rs) else None)"
  by (simp add: setReports_def timeoutId_autoSaveEffect)

lemma localStorage_setReports:
  "localStorage (setReports rs s) =
     (if rs \<noteq> [] then (localStorage s)(STORAGE_KEY \<mapsto> JSON_stringify rs) else localStorage s)"
  by (simp add: setReports_def localStorage_autoSaveEffect)

lemma handleServerFetch_fields [simp]:
  "reports (handleServerFetch url s) = reports s"
  "serverUrl (handleServerFetch url s) = serverUrl s"
  "isInitialLoad (handleServerFetch url s) = isInitialLoad s"
  "lastSyncTime (handleServerFetch url s) = lastSyncTime s"
  "localStorage (handleServerFetch url s) = localStorage s"
  "timeoutId (handleServerFetch url s) = timeoutId s"
  "clock (handleServerFetch url s) = clock s"
  "saveCalls (handleServerFetch url s) = saveCalls s"
  "extractCalls (handleServerFetch url s) = extractCalls s"
  "batchedUpdates (handleServerFetch url s) = batchedUpdates s"
  by (simp_all add: handleServerFetch_def)

lemma autoSaveEffect_initialApp [simp]:
  "autoSaveEffect (initialApp batched storage t) = initialApp batched storage t"
  by (simp add: autoSaveEffect_def initialApp_def)

lemma initialApp_fields [simp]:
  "localStorage (initialApp batched storage t) = storage"
  "reports (initialApp batched storage t) = []"
  "serverUrl (initialApp batched storage t) = []"
  by (simp_all add: initialApp_def)

lemma isArray_reports_json [simp]: "isArray (reports_json rs)"
  by (simp add: isArray_def reports_json_def)

lemma elapse_fields [simp]:
  "reports (elapse d s) = reports s"
  "serverUrl (elapse d s) = serverUrl s"
  "isInitialLoad (elapse d s) = isInitialLoad s"
  "lastSyncTime (elapse d s) = lastSyncTime s"
  "localStorage (elapse d s) = localStorage s"
  "extractCalls (elapse d s) = extractCalls s"
  "batchedUpdates (elapse d s) = batchedUpdates s"
  "clock (elapse d s) = clock s + d"
  by (simp_all add: elapse_def timerFires_def split: option.splits)

chapter \<open>The claims\<close>

section \<open>Pull\<close>

lemma starting_fields:
  "reports (starting batched url rs) = rs"
  "serverUrl (starting batched url rs) = url"
  "isInitialLoad (starting batched url rs)"
  "timeoutId (starting batched url rs) = None"
  "clock (starting batched url rs) = 0"
  "saveCalls (starting batched url rs) = []"
  "extractCalls (starting batched url rs) = []"
  "batchedUpdates (starting batched url rs) = batched"
  "localStorage (starting batched url rs) = stored url rs"
  by (simp_all add: starting_def initialApp_def)

lemma running_fields:
  "reports (running batched url rs) = rs"
  "serverUrl (running batched url rs) = url"
  "\<not> isInitialLoad (running batched url rs)"
  "timeoutId (running batched url rs) = None"
  "clock (running batched url rs) = 0"
  "saveCalls (running batched url rs) = []"
  "extractCalls (running batched url rs) = []"
  "batchedUpdates (running batched url rs) = batched"
  "localStorage (running batched url rs) = stored url rs"
  "lastSyncTime (running batched url rs) = Some 0"
  "syncStatus (running batched url rs) = Synced"
  by (simp_all add: running_def fetchSettled_def starting_fields)

lemma storable_examples:
  "storable reportA" "storable reportB" "storable (reportA\<lparr>id' := ''p1.jpg'', timestamp := 0\<rparr>)"
  by (simp_all add: storable_def reportA_def reportB_def)

text \<open>Both states are reached by the component itself.\<close>

lemma starting_reached:
  assumes "url \<noteq> []" and "list_all storable rs"
  shows "mount batched (stored url rs) 0 = Some (starting batched url rs)"
proof -
  have k: "SERVER_URL_KEY \<noteq> STORAGE_KEY"
    by (simp add: SERVER_URL_KEY_def STORAGE_KEY_def)
  have u: "stored url rs SERVER_URL_KEY = Some url" "stored url rs STORAGE_KEY = Some (JSON_stringify rs)"
    using k by (simp_all add: stored_def)
  have i: "(stored url rs)(STORAGE_KEY \<mapsto> JSON_stringify rs) = stored url rs"
    by (simp add: stored_def)
  show ?thesis
    using assms u
    by (simp add: mount_def initialize_def Let_def truthy_def JSON_stringify_nonempty
        JSON_parse_JSON_stringify json_reports_reports_json handleServerFetch_def
        autoSaveEffect_def starting_def initialApp_def i)
qed

lemma running_reached:
  assumes "url \<noteq> []" and "list_all storable rs"
  shows "session batched (stored url rs) 0 adapter [FetchSettled (Resolved None)]
           = Some (running batched url rs)"
  using assms by (simp add: session_def starting_reached running_def)

text \<open>
  C5. For every local collection \<open>A\<close> (the \<open>reports\<close> of any state) and every
  non-empty remote collection \<open>B\<close>, a pull from a configured endpoint that succeeds
  with \<open>B\<close> leaves the local collection equal to \<open>B\<close>: nothing of \<open>A\<close> is kept and
  nothing is merged. The same holds of the settling alone, whatever happened between
  the request and its answer.
\<close>

theorem pull_replaces_collection:
  assumes "B \<noteq> []" and "url \<noteq> []"
  shows "reports (pull url d (Resolved (Some B)) s) = B
       \<and> reports (fetchSettled (Resolved (Some B)) s) = B"
  using assms by (simp add: pull_def fetchSettled_def Let_def)

theorem pull_replaces_collection_witness:
  "[reportB] \<noteq> [] \<and> ''https://hub'' \<noteq> []
   \<and> reports (pull ''https://hub'' 120 (Resolved (Some [reportB])) (running True ''https://hub'' [reportA]))
       = [reportB]"
  using pull_replaces_collection [of "[reportB]" "''https://hub''" 120 "running True ''https://hub'' [reportA]"]
  by simp

text \<open>
  C6. A pull whose fetch fails sets the status to \<open>Error\<close> and leaves the local
  collection, the stored collection and the time of the last successful sync as they
  were.
\<close>

theorem pull_failure_keeps_state:
  assumes "url \<noteq> []"
  shows "syncStatus (pull url d Rejected s) = Error
       \<and> reports (pull url d Rejected s) = reports s
       \<and> localStorage (pull url d Rejected s) = localStorage s
       \<and> lastSyncTime (pull url d Rejected s) = lastSyncTime s"
  using assms by (simp add: pull_def fetchSettled_def)

theorem pull_failure_keeps_state_witness:
  "''https://hub'' \<noteq> []
   \<and> syncStatus (pull ''https://hub'' 120 Rejected (running True ''https://hub'' [reportA])) = Error
   \<and> reports (pull ''https://hub'' 120 Rejected (running True ''https://hub'' [reportA])) = [reportA]
   \<and> lastSyncTime (pull ''https://hub'' 120 Rejected (running True ''https://hub'' [reportA])) = Some 0"
  using pull_failure_keeps_state [of "''https://hub''" 120 "running True ''https://hub'' [reportA]"]
  by (simp add: running_fields)

text \<open>
  C10. A pull from a configured endpoint whose remote collection is empty or absent
  leaves the local collection and \<^verbatim>\<open>localStorage\<close> as they were, and still sets the
  status to \<open>Synced\<close> and the time of the last sync to the instant the pull completed,
  \<open>d\<close> milliseconds after it was asked for.
\<close>

theorem pull_empty_remote:
  assumes "url \<noteq> []" and "remote = None \<or> remote = Some []"
  shows "reports (pull url d (Resolved remote) s) = reports s
       \<and> localStorage (pull url d (Resolved remote) s) = localStorage s
       \<and> syncStatus (pull url d (Resolved remote) s) = Synced
       \<and> lastSyncTime (pull url d (Resolved remote) s) = Some (clock s + d)"
  using assms by (auto simp: pull_def fetchSettled_def)

theorem pull_empty_remote_witness:
  "''https://hub'' \<noteq> [] \<and> (Some [] = None \<or> Some [] = Some ([] :: FlightReport list))
   \<and> reports (pull ''https://hub'' 120 (Resolved (Some [])) (running True ''https://hub'' [reportA]))
       = [reportA]
   \<and> localStorage (pull ''https://hub'' 120 (Resolved (Some [])) (running True ''https://hub'' [reportA]))
       = stored ''https://hub'' [reportA]
   \<and> syncStatus (pull ''https://hub'' 120 (Resolved (Some [])) (running True ''https://hub'' [reportA]))
       = Synced
   \<and> lastSyncTime (pull ''https://hub'' 120 (Resolved (Some [])) (running True ''https://hub'' [reportA]))
       = Some 120"
  using pull_empty_remote [of "''https://hub''" "Some []" 120 "running True ''https://hub'' [reportA]"]
  by (simp add: running_fields)

section \<open>Ingestion\<close>

lemma show_nat_small:
  "show_nat 0 = ''0''" "show_nat (Suc 0) = ''1''" "show_nat 1 = ''1''" "show_nat 2 = ''2''"
  "show_nat 3 = ''3''"
  by code_simp+

lemma ingestLoop_result:
  assumes "ingestLoop adapter n i files (s, ok, bad) = (s', ok', bad')"
  shows "reports s' = rev (accepted (answers adapter (extractCalls s) files)) @ reports s
       \<and> extractCalls s' = extractCalls s @ files
       \<and> ok' = ok + length (accepted (answers adapter (extractCalls s) files))
       \<and> bad' = bad + failureCount (answers adapter (extractCalls s) files)
       \<and> error s' = error s"
  using assms
proof (induction files arbitrary: s i ok bad)
  case Nil
  then show ?case by simp
next
  case (Cons f files)
  show ?case
  proof (cases "adapter (extractCalls s) f")
    case (Inl err)
    with Cons.prems have
      "ingestLoop adapter n (i + 1) files
         (s\<lparr>processingStatus := ''Analyzing '' @ show_nat (i + 1) @ '' of '' @ show_nat n @ ''...'',
            extractCalls := extractCalls s @ [f]\<rparr>, ok, bad + 1) = (s', ok', bad')"
      by (simp add: Let_def)
    from Cons.IH [OF this] Inl show ?thesis by simp
  next
    case (Inr newReport)
    with Cons.prems have
      "ingestLoop adapter n (i + 1) files
         (setReports (newReport # reports s)
            (s\<lparr>processingStatus := ''Analyzing '' @ show_nat (i + 1) @ '' of '' @ show_nat n @ ''...'',
               extractCalls := extractCalls s @ [f]\<rparr>), ok + 1, bad) = (s', ok', bad')"
      by (simp add: Let_def)
    from Cons.IH [OF this] Inr show ?thesis by simp
  qed
qed

lemma handleFileSelect_result:
  "reports (handleFileSelect adapter files s)
     = rev (accepted (answers adapter (extractCalls s) files)) @ reports s
   \<and> extractCalls (handleFileSelect adapter files s) = extractCalls s @ files
   \<and> error (handleFileSelect adapter files s)
     = (if 0 < failureCount (answers adapter (extractCalls s) files)
        then Some (''Completed with issues: ''
                   @ show_nat (length (accepted (answers adapter (extractCalls s) files)))
                   @ '' processed, ''
                   @ show_nat (failureCount (answers adapter (extractCalls s) files))
                   @ '' failed.'')
        else None)"
proof -
  obtain s' ok' bad' where
    loop: "ingestLoop adapter (length files) 0 files (s\<lparr>isProcessing := True, error := None\<rparr>, 0, 0)
             = (s', ok', bad')"
    by (cases "ingestLoop adapter (length files) 0 files (s\<lparr>isProcessing := True, error := None\<rparr>, 0, 0)")
      auto
  from ingestLoop_result [OF loop] loop show ?thesis
    by (simp add: handleFileSelect_def Let_def)
qed

lemma length_answers:
  "length (accepted (answers adapter calls files)) + failureCount (answers adapter calls files)
     = length files"
proof (induction files arbitrary: calls)
  case Nil
  show ?case by simp
next
  case (Cons f files)
  then show ?case by (cases "adapter calls f") simp_all
qed

text \<open>
  C3. For every batch, whatever fails and whatever succeeds in it: the adapter is
  called for every document of the batch (a failure stops nothing); the collection
  afterwards is the accepted reports, newest first, ahead of the collection before, so
  exactly the reports of the succeeding documents are added and none is dropped; every
  document either adds a report or counts as a failure; and the message left in
  \<open>error\<close> reports the number of failing documents, and is absent when there is none.
\<close>

theorem ingest_partial_failure:
  "extractCalls (handleFileSelect adapter files s) = extractCalls s @ files
   \<and> reports (handleFileSelect adapter files s)
     = rev (accepted (answers adapter (extractCalls s) files)) @ reports s
   \<and> length (accepted (answers adapter (extractCalls s) files))
       + failureCount (answers adapter (extractCalls s) files) = length files
   \<and> error (handleFileSelect adapter files s)
     = (if 0 < failureCount (answers adapter (extractCalls s) files)
        then Some (''Completed with issues: ''
                   @ show_nat (length (accepted (answers adapter (extractCalls s) files)))
                   @ '' processed, ''
                   @ show_nat (failureCount (answers adapter (extractCalls s) files))
                   @ '' failed.'')
        else None)"
  using handleFileSelect_result [of adapter files s] length_answers [of adapter "extractCalls s" files]
  by simp

text \<open>The batch of the specification: the first document fails, the second succeeds.\<close>

theorem ingest_partial_failure_witness:
  "reports (handleFileSelect demoExtract [File ''blurred.jpg'', File ''pfr2.jpg''] (running True ''https://hub'' [reportB]))
     = [reportA\<lparr>id' := ''pfr2.jpg'', timestamp := 1\<rparr>, reportB]
   \<and> extractCalls (handleFileSelect demoExtract [File ''blurred.jpg'', File ''pfr2.jpg''] (running True ''https://hub'' [reportB]))
     = [File ''blurred.jpg'', File ''pfr2.jpg'']
   \<and> error (handleFileSelect demoExtract [File ''blurred.jpg'', File ''pfr2.jpg''] (running True ''https://hub'' [reportB]))
     = Some ''Completed with issues: 1 processed, 1 failed.''"
proof -
  have e: "extractCalls (running True ''https://hub'' [reportB]) = []" "reports (running True ''https://hub'' [reportB]) = [reportB]"
    by (simp_all add: running_fields)
  have a: "answers demoExtract (extractCalls (running True ''https://hub'' [reportB]))
             [File ''blurred.jpg'', File ''pfr2.jpg'']
           = [Inl ''no report in the picture'', Inr (reportA\<lparr>id' := ''pfr2.jpg'', timestamp := 1\<rparr>)]"
    by (simp add: e demoExtract_def)
  from ingest_partial_failure
         [of demoExtract "[File ''blurred.jpg'', File ''pfr2.jpg'']" "running True ''https://hub'' [reportB]"]
  show ?thesis
    unfolding a by (simp add: e show_nat_small)
qed

text \<open>
  C4. For a batch \<open>[d1, d2, d3]\<close> whose extractions all succeed: the adapter is
  called for \<open>d1\<close>, then \<open>d2\<close>, then \<open>d3\<close>, each call made when the calls before it
  have returned (the answer to \<open>d2\<close> is the one given after the call for \<open>d1\<close>, and so
  on), and the collection afterwards is \<open>[r3, r2, r1]\<close> ahead of the collection before.
\<close>

theorem ingest_in_order:
  assumes "adapter (extractCalls s) d1 = Inr r1"
    and "adapter (extractCalls s @ [d1]) d2 = Inr r2"
    and "adapter (extractCalls s @ [d1, d2]) d3 = Inr r3"
  shows "extractCalls (handleFileSelect adapter [d1, d2, d3] s) = extractCalls s @ [d1, d2, d3]
       \<and> reports (handleFileSelect adapter [d1, d2, d3] s) = [r3, r2, r1] @ reports s
       \<and> error (handleFileSelect adapter [d1, d2, d3] s) = None"
proof -
  have "answers adapter (extractCalls s) [d1, d2, d3] = [Inr r1, Inr r2, Inr r3]"
    using assms by simp
  then show ?thesis
    using handleFileSelect_result [of adapter "[d1, d2, d3]" s] by simp
qed

theorem ingest_in_order_witness:
  "demoExtract [] (File ''p1.jpg'') = Inr (reportA\<lparr>id' := ''p1.jpg'', timestamp := 0\<rparr>)
   \<and> demoExtract [File ''p1.jpg''] (File ''p2.jpg'') = Inr (reportA\<lparr>id' := ''p2.jpg'', timestamp := 1\<rparr>)
   \<and> demoExtract [File ''p1.jpg'', File ''p2.jpg''] (File ''p3.jpg'')
       = Inr (reportA\<lparr>id' := ''p3.jpg'', timestamp := 2\<rparr>)
   \<and> extractCalls (handleFileSelect demoExtract [File ''p1.jpg'', File ''p2.jpg'', File ''p3.jpg'']
         (running True ''https://hub'' [reportB]))
       = [File ''p1.jpg'', File ''p2.jpg'', File ''p3.jpg'']
   \<and> reports (handleFileSelect demoExtract [File ''p1.jpg'', File ''p2.jpg'', File ''p3.jpg'']
         (running True ''https://hub'' [reportB]))
       = [reportA\<lparr>id' := ''p3.jpg'', timestamp := 2\<rparr>, reportA\<lparr>id' := ''p2.jpg'', timestamp := 1\<rparr>,
          reportA\<lparr>id' := ''p1.jpg'', timestamp := 0\<rparr>, reportB]"
proof -
  have e: "extractCalls (running True ''https://hub'' [reportB]) = []" "reports (running True ''https://hub'' [reportB]) = [reportB]"
    by (simp_all add: running_fields)
  have a: "demoExtract (extractCalls (running True ''https://hub'' [reportB])) (File ''p1.jpg'')
             = Inr (reportA\<lparr>id' := ''p1.jpg'', timestamp := 0\<rparr>)"
    "demoExtract (extractCalls (running True ''https://hub'' [reportB]) @ [File ''p1.jpg'']) (File ''p2.jpg'')
             = Inr (reportA\<lparr>id' := ''p2.jpg'', timestamp := 1\<rparr>)"
    "demoExtract (extractCalls (running True ''https://hub'' [reportB]) @ [File ''p1.jpg'', File ''p2.jpg'']) (File ''p3.jpg'')
             = Inr (reportA\<lparr>id' := ''p3.jpg'', timestamp := 2\<rparr>)"
    by (simp_all add: e demoExtract_def)
  from ingest_in_order [OF a] a show ?thesis
    by (simp add: e)
qed

section \<open>The local store\<close>

text \<open>
  What was saved is read back, and an entry that is absent, empty, or a text that
  \<^verbatim>\<open>JSON.parse\<close> rejects leaves the collection empty: the error is caught.
\<close>

lemma mount_reads_saved:
  assumes "storage STORAGE_KEY = Some (JSON_stringify C)" and "list_all storable C"
  shows "map_option reports (mount batched storage t) = Some C"
  using assms
  by (simp add: mount_def initialize_def Let_def JSON_stringify_nonempty JSON_parse_JSON_stringify
      json_reports_reports_json split: option.splits)

lemma saved_is_loaded:
  assumes "C \<noteq> []" and "list_all storable C"
  shows "map_option reports (mount batched (localStorage (setReports C s)) t) = Some C"
proof -
  from assms(1) have "localStorage (setReports C s) STORAGE_KEY = Some (JSON_stringify C)"
    by (simp add: localStorage_setReports)
  from mount_reads_saved [of "localStorage (setReports C s)" C, OF this assms(2)] show ?thesis .
qed

lemma mount_keeps_empty:
  assumes "storage STORAGE_KEY = None \<or> storage STORAGE_KEY = Some []
           \<or> (\<exists>text. storage STORAGE_KEY = Some text \<and> JSON_parse text = None)"
  shows "map_option reports (mount batched storage t) = Some []"
  using assms
  by (auto simp: mount_def initialize_def Let_def split: option.splits)

text \<open>
  The start leaves the typed state exactly when the entry is a text that parses to
  something that is no list of reports. Every value that is not an array is such a
  value, and the import of a backup file ignores each of them.
\<close>

lemma initialize_unchecked:
  "initialize s = Unchecked v \<longleftrightarrow>
     (\<exists>text. localStorage s STORAGE_KEY = Some text \<and> text \<noteq> []
        \<and> JSON_parse text = Some v \<and> json_reports v = None)"
  by (auto simp: initialize_def Let_def split: option.splits if_splits)

lemma start_installs_what_import_ignores:
  assumes "JSON_parse text = Some v" and "\<not> isArray v"
    and "text \<noteq> []" and "localStorage s STORAGE_KEY = Some text"
  shows "initialize s = Unchecked v \<and> handleImportBackup (Some text) confirmed u = Typed u"
proof -
  from assms(2) have "json_reports v = None"
    by (cases v) (simp_all add: json_reports_def isArray_def)
  with assms show ?thesis
    by (simp add: initialize_unchecked handleImportBackup_def)
qed

lemma parse_examples:
  "JSON_parse ''null'' = Some JNull" "JSON_parse ''{}'' = Some (JObject [])"
  "JSON_parse ''nul'' = None"
  by code_simp+

text \<open>
  C8. The component means to take a saved text it cannot use for an empty collection:
  the parse sits in a \<^verbatim>\<open>try\<close> whose \<^verbatim>\<open>catch\<close> logs the error and goes on, and the
  import of a backup file, which parses a text in the same way, asks
  \<^verbatim>\<open>Array.isArray\<close> before it installs anything (line 175). The start asks nothing. A
  store whose entry is the text \<^verbatim>\<open>null\<close> is corrupt, and yet the text is JSON:
  \<^verbatim>\<open>JSON.parse\<close> returns \<^verbatim>\<open>null\<close> without an error, the \<^verbatim>\<open>catch\<close> does not run, and
  \<^verbatim>\<open>null\<close> is the collection. The render that follows throws at \<^verbatim>\<open>reports.length\<close>.
  So this start does not give an empty collection, and it raises. A stored \<^verbatim>\<open>{}\<close>
  becomes the collection in the same way, though \<^verbatim>\<open>reports.length\<close> does not throw for
  it. The text \<^verbatim>\<open>null\<close> chosen as a backup file is ignored, and the cut-off text
  \<^verbatim>\<open>nul\<close> in the store is caught and leaves the collection empty.
\<close>

theorem load_installs_null:
  "JSON_parse ''null'' = Some JNull
   \<and> initialize (autoSaveEffect (initialApp batched (Map.empty(STORAGE_KEY \<mapsto> ''null'')) t))
       = Unchecked JNull
   \<and> lengthThrows JNull
   \<and> mount batched (Map.empty(STORAGE_KEY \<mapsto> ''null'')) t = None
   \<and> initialize (autoSaveEffect (initialApp batched (Map.empty(STORAGE_KEY \<mapsto> ''{}'')) t))
       = Unchecked (JObject [])
   \<and> handleImportBackup (Some ''null'') confirmed s = Typed s
   \<and> map_option reports (mount batched (Map.empty(STORAGE_KEY \<mapsto> ''nul'')) t) = Some []"
proof -
  have k: "SERVER_URL_KEY \<noteq> STORAGE_KEY"
    by (simp add: SERVER_URL_KEY_def STORAGE_KEY_def)
  have i: "initialize (autoSaveEffect (initialApp batched (Map.empty(STORAGE_KEY \<mapsto> ''null'')) t))
             = Unchecked JNull"
    using k by (simp add: initialize_def Let_def parse_examples json_reports_def)
  have j: "initialize (autoSaveEffect (initialApp batched (Map.empty(STORAGE_KEY \<mapsto> ''{}'')) t))
             = Unchecked (JObject [])"
    using k by (simp add: initialize_def Let_def parse_examples json_reports_def)
  have h: "handleImportBackup (Some ''null'') confirmed s = Typed s"
    by (simp add: handleImportBackup_def parse_examples isArray_def)
  have e: "map_option reports (mount batched (Map.empty(STORAGE_KEY \<mapsto> ''nul'')) t) = Some []"
    by (rule mount_keeps_empty) (simp add: parse_examples)
  from i j h e show ?thesis
    by (simp add: parse_examples lengthThrows_def mount_def)
qed

text \<open>
  C2. The auto-save effect writes the collection to \<^verbatim>\<open>localStorage\<close> only when it is not
  empty (line 78), under the comment \<^verbatim>\<open>Save to LocalStorage (Always)\<close>, while
  \<^verbatim>\<open>handleClearAll\<close> erases the entry itself. So removing the last report leaves the
  store behind the collection: one document is ingested, its report is removed, the
  collection is empty, the store still holds the report, and the next start brings it
  back.
\<close>

theorem remove_last_report_not_persisted:
  "map_option reports
     (session True Map.empty 0 demoExtract [FileSelect [File ''p1.jpg''], RemoveReport ''p1.jpg''])
     = Some []
   \<and> map_option (\<lambda>s. localStorage s STORAGE_KEY)
       (session True Map.empty 0 demoExtract [FileSelect [File ''p1.jpg''], RemoveReport ''p1.jpg''])
     = Some (Some (JSON_stringify [reportA\<lparr>id' := ''p1.jpg'', timestamp := 0\<rparr>]))
   \<and> Option.bind
       (session True Map.empty 0 demoExtract [FileSelect [File ''p1.jpg''], RemoveReport ''p1.jpg''])
       (\<lambda>s. map_option reports (mount True (localStorage s) 5000))
     = Some [reportA\<lparr>id' := ''p1.jpg'', timestamp := 0\<rparr>]"
proof -
  have m: "mount True Map.empty 0 = Some ((initialApp True Map.empty 0)\<lparr>isInitialLoad := False\<rparr>)"
    by (simp add: mount_def initialize_def Let_def truthy_def)
  have "session True Map.empty 0 demoExtract [FileSelect [File ''p1.jpg''], RemoveReport ''p1.jpg'']
          = Some (handleRemoveReport ''p1.jpg''
                    (handleFileSelect demoExtract [File ''p1.jpg'']
                       ((initialApp True Map.empty 0)\<lparr>isInitialLoad := False\<rparr>)))"
    by (simp add: session_def m)
  moreover have "reports (handleRemoveReport ''p1.jpg''
                    (handleFileSelect demoExtract [File ''p1.jpg'']
                       ((initialApp True Map.empty 0)\<lparr>isInitialLoad := False\<rparr>))) = []"
    by (simp add: handleRemoveReport_def handleFileSelect_result demoExtract_def initialApp_def)
  moreover have "localStorage (handleRemoveReport ''p1.jpg''
                    (handleFileSelect demoExtract [File ''p1.jpg'']
                       ((initialApp True Map.empty 0)\<lparr>isInitialLoad := False\<rparr>))) STORAGE_KEY
                 = Some (JSON_stringify [reportA\<lparr>id' := ''p1.jpg'', timestamp := 0\<rparr>])"
    by (simp add: handleRemoveReport_def handleFileSelect_result localStorage_setReports
        handleFileSelect_def Let_def demoExtract_def initialApp_def)
  ultimately show ?thesis
    by (simp add: mount_reads_saved storable_examples)
qed

section \<open>Unique identifiers\<close>

lemma reports_fetchSettled:
  "reports (fetchSettled res s) =
     (case res of Resolved (Some rs) \<Rightarrow> if rs \<noteq> [] then rs else reports s | _ \<Rightarrow> reports s)"
  by (simp add: fetchSettled_def Let_def split: FetchResult.splits option.splits)

lemma reports_handleUrlChange [simp]: "reports (handleUrlChange u s) = reports s"
  by (simp add: handleUrlChange_def Let_def)

lemma step_uniqueIds:
  assumes "uniqueIds s" and "admits adapter e s" and "step adapter e s = Some s'"
  shows "uniqueIds s'"
proof (cases e)
  case (UrlChange u)
  with assms show ?thesis by (auto simp: uniqueIds_def)
next
  case ManualSync
  with assms show ?thesis by (auto simp: uniqueIds_def onManualSync_def)
next
  case (FetchSettled res)
  with assms show ?thesis
    by (cases res; cases "case res of Resolved x \<Rightarrow> x | _ \<Rightarrow> None")
       (auto simp: uniqueIds_def reports_fetchSettled)
next
  case (FileSelect files)
  with assms show ?thesis
    by (auto simp: uniqueIds_def handleFileSelect_result rev_map [symmetric])
next
  case (RemoveReport i)
  with assms show ?thesis
    by (auto simp: uniqueIds_def handleRemoveReport_def distinct_map_filter)
next
  case (ClearAll c)
  with assms show ?thesis by (auto simp: uniqueIds_def handleClearAll_def split: if_splits)
next
  case (ImportBackup chosen c)
  with assms show ?thesis
    by (cases chosen; cases c)
       (auto simp: uniqueIds_def handleImportBackup_def split: option.splits if_splits)
next
  case (Elapse d)
  with assms show ?thesis by (auto simp: uniqueIds_def)
next
  case (SaveSettled ok)
  with assms show ?thesis by (auto simp: uniqueIds_def saveSettled_def)
qed

text \<open>
  C9, as it holds. Across every run whose events admit uniqueness (each batch brings
  identifiers that are new and distinct, each imported or pulled collection has no
  identifier twice), the collection keeps its identifiers unique. The component checks
  nothing itself.
\<close>

theorem unique_ids_kept:
  assumes "uniqueIds s" and "admitted adapter es s" and "run adapter es s = Some s'"
  shows "uniqueIds s'"
  using assms
proof (induction es arbitrary: s)
  case Nil
  then show ?case by simp
next
  case (Cons e es)
  from Cons.prems(3) obtain s1 where s1: "step adapter e s = Some s1" "run adapter es s1 = Some s'"
    by (auto split: option.splits)
  from Cons.prems(1,2) s1(1) have "uniqueIds s1" "admitted adapter es s1"
    by (auto intro: step_uniqueIds)
  from Cons.IH [OF this s1(2)] show ?case .
qed

text \<open>
  C9 as stated fails: an import, or a pull, of a collection that holds the same report
  twice installs it as it is.
\<close>

theorem duplicate_ids_counterexample:
  "map_option uniqueIds
     (session True Map.empty 0 demoExtract [ImportBackup (Some (JSON_stringify [reportA, reportA])) True])
     = Some False
   \<and> map_option uniqueIds
       (session True Map.empty 0 demoExtract
          [UrlChange ''https://hub'', FetchSettled (Resolved (Some [reportA, reportA]))])
     = Some False"
proof -
  have m: "mount True Map.empty 0 = Some ((initialApp True Map.empty 0)\<lparr>isInitialLoad := False\<rparr>)"
    by (simp add: mount_def initialize_def Let_def truthy_def)
  show ?thesis
    by (simp add: session_def m handleImportBackup_def JSON_parse_JSON_stringify
        json_reports_reports_json storable_examples uniqueIds_def reports_fetchSettled)
qed

theorem unique_ids_kept_witness:
  "uniqueIds (running True ''https://hub'' [reportB])
   \<and> admitted demoExtract
        [FileSelect [File ''p1.jpg'', File ''p2.jpg''], RemoveReport ''p1.jpg'',
         ImportBackup (Some (JSON_stringify [reportA, reportB])) True]
        (running True ''https://hub'' [reportB])
   \<and> map_option uniqueIds
        (run demoExtract
           [FileSelect [File ''p1.jpg'', File ''p2.jpg''], RemoveReport ''p1.jpg'',
            ImportBackup (Some (JSON_stringify [reportA, reportB])) True]
           (running True ''https://hub'' [reportB]))
       = Some True"
proof -
  let ?es = "[FileSelect [File ''p1.jpg'', File ''p2.jpg''], RemoveReport ''p1.jpg'',
              ImportBackup (Some (JSON_stringify [reportA, reportB])) True]"
  let ?s = "running True ''https://hub'' [reportB]"
  have u: "uniqueIds ?s"
    by (simp add: uniqueIds_def running_fields)
  have e: "extractCalls ?s = []" "reports ?s = [reportB]"
    by (simp_all add: running_fields)
  have i: "id' reportA = ''a1''" "id' reportB = ''b2''"
    by (simp_all add: reportA_def reportB_def)
  have a: "admitted demoExtract ?es ?s"
    by (simp add: e i demoExtract_def handleFileSelect_result handleImportBackup_def
        JSON_parse_JSON_stringify json_reports_reports_json storable_examples)
  obtain s' where r: "run demoExtract ?es ?s = Some s'"
    by (simp add: handleImportBackup_def JSON_parse_JSON_stringify json_reports_reports_json
        storable_examples)
  from unique_ids_kept [OF u a r] u a r show ?thesis by simp
qed

section \<open>The debounced push\<close>

lemma mutate_fields [simp]:
  "serverUrl (mutate m s) = serverUrl s"
  "isInitialLoad (mutate m s) = isInitialLoad s"
  "clock (mutate m s) = clock s"
  "saveCalls (mutate m s) = saveCalls s"
  by (cases m; simp add: handleRemoveReport_def handleClearAll_def)+

lemma timeoutId_mutate:
  "timeoutId (mutate m s) =
     (if serverUrl s \<noteq> [] \<and> \<not> isInitialLoad s
      then Some (SaveCall (clock s + 1000) (serverUrl s) (reports (mutate m s))) else None)"
  by (cases m) (simp_all add: handleRemoveReport_def handleClearAll_def timeoutId_setReports)

lemma elapse_early:
  "timeoutId s = Some call \<Longrightarrow> clock s + d < issuedAt call \<Longrightarrow>
   timeoutId (elapse d s) = Some call \<and> saveCalls (elapse d s) = saveCalls s"
  by (simp add: elapse_def)

lemma elapse_due:
  "timeoutId s = Some call \<Longrightarrow> issuedAt call \<le> clock s + d \<Longrightarrow>
   timeoutId (elapse d s) = None \<and> saveCalls (elapse d s) = saveCalls s @ [call]"
  by (simp add: elapse_def timerFires_def)

lemma burst_result:
  assumes "serverUrl s \<noteq> []" and "\<not> isInitialLoad s" and "list_all (\<lambda>(gap, m). gap < 1000) rest"
  shows "timeoutId (burst m rest s)
           = Some (SaveCall (clock (burst m rest s) + 1000) (serverUrl s) (reports (burst m rest s)))
       \<and> saveCalls (burst m rest s) = saveCalls s
       \<and> clock (burst m rest s) = clock s + sum_list (map fst rest)
       \<and> serverUrl (burst m rest s) = serverUrl s"
  using assms
proof (induction rest arbitrary: m s)
  case Nil
  then show ?case by (simp add: timeoutId_mutate)
next
  case (Cons p rest)
  obtain gap m' where p: "p = (gap, m')" by (cases p)
  let ?s1 = "elapse gap (mutate m s)"
  from Cons.prems p have gap: "gap < 1000" and rest: "list_all (\<lambda>(gap, m). gap < 1000) rest"
    by simp_all
  have t: "timeoutId (mutate m s) = Some (SaveCall (clock s + 1000) (serverUrl s) (reports (mutate m s)))"
    using Cons.prems by (simp add: timeoutId_mutate)
  have keep: "saveCalls ?s1 = saveCalls s"
    using elapse_early [OF t, of gap] gap by simp
  have "serverUrl ?s1 \<noteq> []" "\<not> isInitialLoad ?s1"
    using Cons.prems by simp_all
  from Cons.IH [OF this rest, of m'] keep p show ?case
    by (simp add: add.assoc)
qed

text \<open>
  C7, as it holds. With an endpoint set and the initial-load flag down, every mutation
  schedules the push 1000 ms ahead, whatever was pending; across a burst whose gaps are
  all under 1000 ms no push is made; and 1000 ms or more of quiet after the burst bring
  exactly one push, dated 1000 ms after the last mutation (the clock at the end of the
  burst is the start plus the gaps), carrying the collection as the burst left it, with
  nothing left pending.
\<close>

theorem debounce_one_push:
  assumes "serverUrl s \<noteq> []" and "\<not> isInitialLoad s"
    and "list_all (\<lambda>(gap, m). gap < 1000) rest" and "1000 \<le> quiet"
  shows "timeoutId (mutate m s) = Some (SaveCall (clock s + 1000) (serverUrl s) (reports (mutate m s)))
       \<and> saveCalls (burst m rest s) = saveCalls s
       \<and> clock (burst m rest s) = clock s + sum_list (map fst rest)
       \<and> saveCalls (elapse quiet (burst m rest s))
           = saveCalls s @ [SaveCall (clock (burst m rest s) + 1000) (serverUrl s) (reports (burst m rest s))]
       \<and> timeoutId (elapse quiet (burst m rest s)) = None"
proof -
  note b = burst_result [OF assms(1,2,3), of m]
  from b have t: "timeoutId (burst m rest s)
      = Some (SaveCall (clock (burst m rest s) + 1000) (serverUrl s) (reports (burst m rest s)))"
    by simp
  have "issuedAt (SaveCall (clock (burst m rest s) + 1000) (serverUrl s) (reports (burst m rest s)))
          \<le> clock (burst m rest s) + quiet"
    using assms(4) by simp
  from elapse_due [OF t this] b assms(1,2) show ?thesis
    by (simp add: timeoutId_mutate)
qed

theorem debounce_one_push_witness:
  "serverUrl (running True ''https://hub'' [reportB]) \<noteq> []
   \<and> \<not> isInitialLoad (running True ''https://hub'' [reportB])
   \<and> list_all (\<lambda>(gap, m). gap < 1000) [(300 :: nat, Remove ''b2''), (999, Add reportB)]
   \<and> (1000 :: nat) \<le> 1000
   \<and> saveCalls (burst (Add reportA) [(300 :: nat, Remove ''b2''), (999, Add reportB)]
        (running True ''https://hub'' [reportB])) = []
   \<and> saveCalls (elapse 1000 (burst (Add reportA) [(300 :: nat, Remove ''b2''), (999, Add reportB)]
        (running True ''https://hub'' [reportB])))
       = [SaveCall 2299 ''https://hub'' [reportB, reportA]]"
proof -
  let ?s = "running True ''https://hub'' [reportB]"
  have f: "serverUrl ?s = ''https://hub''" "\<not> isInitialLoad ?s" "clock ?s = 0" "saveCalls ?s = []"
    "reports ?s = [reportB]"
    by (simp_all add: running_fields)
  have h: "serverUrl ?s \<noteq> []" "list_all (\<lambda>(gap, m). gap < 1000) [(300 :: nat, Remove ''b2''), (999, Add reportB)]"
    "(1000 :: nat) \<le> 1000"
    by (simp_all add: f)
  have i: "id' reportA = ''a1''" "id' reportB = ''b2''"
    by (simp_all add: reportA_def reportB_def)
  have r: "reports (burst (Add reportA) [(300 :: nat, Remove ''b2''), (999, Add reportB)] ?s) = [reportB, reportA]"
    by (simp add: f i handleRemoveReport_def)
  note d = debounce_one_push [OF h(1) f(2) h(2) h(3), of "Add reportA"]
  from d have "saveCalls (burst (Add reportA) [(300 :: nat, Remove ''b2''), (999, Add reportB)] ?s) = []"
    by (simp add: f del: burst.simps)
  moreover from d have
    "saveCalls (elapse 1000 (burst (Add reportA) [(300 :: nat, Remove ''b2''), (999, Add reportB)] ?s))
       = [SaveCall 2299 ''https://hub'' [reportB, reportA]]"
    by (simp add: f r del: burst.simps)
  ultimately show ?thesis
    using h f(2) by (simp del: burst.simps)
qed

text \<open>
  C7 as stated fails while the startup pull is under way: the endpoint is set, the flag
  is still up, and a mutation schedules nothing. Here the component starts on a saved
  endpoint and two saved reports; one is removed before the pull has settled; the pull
  then finds the remote empty. No push is ever made for the removal.
\<close>

theorem startup_mutation_counterexample:
  "map_option (\<lambda>s. (serverUrl s, reports s, saveCalls s, timeoutId s))
     (session True (Map.empty(SERVER_URL_KEY \<mapsto> ''https://hub'',
                              STORAGE_KEY \<mapsto> JSON_stringify [reportA, reportB])) 0 demoExtract
        [RemoveReport ''a1'', Elapse 5000, FetchSettled (Resolved None), Elapse 5000])
     = Some (''https://hub'', [reportB], [], None)"
proof -
  let ?st = "Map.empty(SERVER_URL_KEY \<mapsto> ''https://hub'', STORAGE_KEY \<mapsto> JSON_stringify [reportA, reportB])"
  have k: "SERVER_URL_KEY \<noteq> STORAGE_KEY"
    by (simp add: SERVER_URL_KEY_def STORAGE_KEY_def)
  have m: "mount True ?st 0
     = Some (autoSaveEffect (handleServerFetch ''https://hub''
               ((initialApp True ?st 0)\<lparr>serverUrl := ''https://hub'', reports := [reportA, reportB]\<rparr>)))"
    using k
    by (simp add: mount_def initialize_def Let_def truthy_def JSON_stringify_nonempty
        JSON_parse_JSON_stringify json_reports_reports_json storable_examples)
  have i: "id' reportA = ''a1''" "id' reportB = ''b2''"
    by (simp_all add: reportA_def reportB_def)
  show ?thesis
    by (simp add: session_def m i handleRemoveReport_def elapse_def timerFires_def fetchSettled_def
        timeoutId_setReports timeoutId_autoSaveEffect initialApp_def handleServerFetch_def)
qed

section \<open>The initial-load guard\<close>

lemma ingestLoop_quiet:
  assumes "ingestLoop adapter n i files (s, ok, bad) = (s', ok', bad')"
  shows "isInitialLoad s' = isInitialLoad s \<and> saveCalls s' = saveCalls s
       \<and> (isInitialLoad s \<longrightarrow> timeoutId s = None \<longrightarrow> timeoutId s' = None)"
  using assms
proof (induction files arbitrary: s i ok bad)
  case Nil
  then show ?case by simp
next
  case (Cons f files)
  show ?case
  proof (cases "adapter (extractCalls s) f")
    case (Inl err)
    with Cons.prems have
      "ingestLoop adapter n (i + 1) files
         (s\<lparr>processingStatus := ''Analyzing '' @ show_nat (i + 1) @ '' of '' @ show_nat n @ ''...'',
            extractCalls := extractCalls s @ [f]\<rparr>, ok, bad + 1) = (s', ok', bad')"
      by (simp add: Let_def)
    from Cons.IH [OF this] show ?thesis by simp
  next
    case (Inr newReport)
    with Cons.prems have
      "ingestLoop adapter n (i + 1) files
         (setReports (newReport # reports s)
            (s\<lparr>processingStatus := ''Analyzing '' @ show_nat (i + 1) @ '' of '' @ show_nat n @ ''...'',
               extractCalls := extractCalls s @ [f]\<rparr>), ok + 1, bad) = (s', ok', bad')"
      by (simp add: Let_def)
    from Cons.IH [OF this] show ?thesis by (simp add: timeoutId_setReports)
  qed
qed

lemma handleFileSelect_quiet:
  "isInitialLoad (handleFileSelect adapter files s) = isInitialLoad s
   \<and> saveCalls (handleFileSelect adapter files s) = saveCalls s
   \<and> (isInitialLoad s \<longrightarrow> timeoutId s = None \<longrightarrow> timeoutId (handleFileSelect adapter files s) = None)"
proof -
  obtain s' ok' bad' where
    loop: "ingestLoop adapter (length files) 0 files (s\<lparr>isProcessing := True, error := None\<rparr>, 0, 0)
             = (s', ok', bad')"
    by (cases "ingestLoop adapter (length files) 0 files (s\<lparr>isProcessing := True, error := None\<rparr>, 0, 0)")
      auto
  from ingestLoop_quiet [OF loop] loop show ?thesis
    by (simp add: handleFileSelect_def Let_def)
qed

lemma step_isInitialLoad:
  assumes "step adapter e s = Some s'"
  shows "isInitialLoad s' = (isInitialLoad s \<and> \<not> settles e)"
proof (cases e)
  case (FetchSettled res)
  with assms show ?thesis
    by (auto simp: fetchSettled_def Let_def split: FetchResult.splits option.splits if_splits)
next
  case (FileSelect files)
  with assms show ?thesis using handleFileSelect_quiet [of adapter files s] by auto
next
  case (ImportBackup chosen c)
  with assms show ?thesis
    by (auto simp: handleImportBackup_def split: option.splits if_splits)
qed (use assms in \<open>auto simp: handleUrlChange_def Let_def onManualSync_def handleRemoveReport_def
       handleClearAll_def elapse_def timerFires_def saveSettled_def split: option.splits if_splits\<close>)

lemma step_quiet:
  assumes "step adapter e s = Some s'" and "isInitialLoad s" and "timeoutId s = None"
    and "\<not> settles e"
  shows "timeoutId s' = None \<and> saveCalls s' = saveCalls s"
proof (cases e)
  case (FetchSettled res)
  with assms show ?thesis by simp
next
  case (FileSelect files)
  with assms show ?thesis using handleFileSelect_quiet [of adapter files s] by auto
next
  case (ImportBackup chosen c)
  with assms show ?thesis
    by (auto simp: handleImportBackup_def timeoutId_setReports split: option.splits if_splits)
qed (use assms in \<open>auto simp: handleUrlChange_def Let_def onManualSync_def handleRemoveReport_def
       handleClearAll_def elapse_def timerFires_def saveSettled_def timeoutId_setReports
       timeoutId_autoSaveEffect split: option.splits if_splits\<close>)

lemma run_quiet:
  assumes "run adapter es s = Some s'" and "isInitialLoad s" and "timeoutId s = None"
    and "list_all (\<lambda>e. \<not> settles e) es"
  shows "isInitialLoad s' \<and> timeoutId s' = None \<and> saveCalls s' = saveCalls s"
  using assms
proof (induction es arbitrary: s)
  case Nil
  then show ?case by simp
next
  case (Cons e es)
  from Cons.prems(1) obtain s1 where s1: "step adapter e s = Some s1" "run adapter es s1 = Some s'"
    by (auto split: option.splits)
  from Cons.prems(4) have e: "\<not> settles e" and es: "list_all (\<lambda>e. \<not> settles e) es"
    by simp_all
  from step_isInitialLoad [OF s1(1)] step_quiet [OF s1(1) Cons.prems(2,3) e] Cons.prems(2) e
  have "isInitialLoad s1" "timeoutId s1 = None" "saveCalls s1 = saveCalls s"
    by simp_all
  with Cons.IH [OF s1(2) this(1,2) es] show ?case by simp
qed

lemma run_flag_stays_down:
  assumes "run adapter es s = Some s'" and "\<not> isInitialLoad s"
  shows "\<not> isInitialLoad s'"
  using assms
proof (induction es arbitrary: s)
  case Nil
  then show ?case by simp
next
  case (Cons e es)
  from Cons.prems(1) obtain s1 where s1: "step adapter e s = Some s1" "run adapter es s1 = Some s'"
    by (auto split: option.splits)
  from step_isInitialLoad [OF s1(1)] Cons.prems(2) have "\<not> isInitialLoad s1" by simp
  from Cons.IH [OF s1(2) this] show ?case .
qed

lemma startup_pull_synchronous:
  assumes "isInitialLoad s" and "timeoutId s = None" and "\<not> batchedUpdates s"
  shows "timeoutId (fetchSettled res s) = None \<and> saveCalls (fetchSettled res s) = saveCalls s"
  using assms
  by (auto simp: fetchSettled_def Let_def timeoutId_autoSaveEffect split: FetchResult.splits option.splits)

lemma later_pull_pushes:
  assumes "\<not> isInitialLoad s" and "serverUrl s \<noteq> []" and "B \<noteq> []"
  shows "timeoutId (fetchSettled (Resolved (Some B)) s) = Some (SaveCall (clock s + 1000) (serverUrl s) B)
       \<and> saveCalls (elapse 1000 (fetchSettled (Resolved (Some B)) s))
           = saveCalls s @ [SaveCall (clock s + 1000) (serverUrl s) B]"
  using assms
  by (simp add: fetchSettled_def Let_def timeoutId_autoSaveEffect elapse_def timerFires_def)

text \<open>
  C1, as it holds. The guard keeps a change of the collection from scheduling a push
  only while the flag is up. From a start on a saved endpoint until the startup pull
  settles, whatever else happens, nothing is scheduled and nothing is pushed; and when
  the root runs effects synchronously, the settling of the startup pull schedules
  nothing either. Once the flag is down it stays down in every run, and from then on a
  pull that replaces the collection schedules a push of the pulled collection to the
  endpoint, made 1000 ms later.
\<close>

theorem initial_load_guard:
  "(isInitialLoad s \<and> timeoutId s = None \<and> list_all (\<lambda>e. \<not> settles e) es
      \<and> run adapter es s = Some s'
     \<longrightarrow> isInitialLoad s' \<and> timeoutId s' = None \<and> saveCalls s' = saveCalls s)
   \<and> (isInitialLoad s \<and> timeoutId s = None \<and> \<not> batchedUpdates s
     \<longrightarrow> timeoutId (fetchSettled res s) = None \<and> saveCalls (fetchSettled res s) = saveCalls s)
   \<and> (\<not> isInitialLoad u \<and> run adapter fs u = Some u' \<longrightarrow> \<not> isInitialLoad u')
   \<and> (\<not> isInitialLoad u \<and> serverUrl u \<noteq> [] \<and> B \<noteq> []
     \<longrightarrow> timeoutId (fetchSettled (Resolved (Some B)) u)
           = Some (SaveCall (clock u + 1000) (serverUrl u) B)
         \<and> saveCalls (elapse 1000 (fetchSettled (Resolved (Some B)) u))
           = saveCalls u @ [SaveCall (clock u + 1000) (serverUrl u) B])"
  using run_quiet [of adapter es s s'] startup_pull_synchronous [of s res]
    run_flag_stays_down [of adapter fs u u'] later_pull_pushes [of u B]
  by blast

theorem initial_load_guard_witness:
  "isInitialLoad (starting False ''https://hub'' [reportA])
   \<and> timeoutId (starting False ''https://hub'' [reportA]) = None
   \<and> list_all (\<lambda>e. \<not> settles e) [RemoveReport ''a1'', Elapse 5000]
   \<and> \<not> batchedUpdates (starting False ''https://hub'' [reportA])
   \<and> map_option (\<lambda>s. (isInitialLoad s, timeoutId s, saveCalls s))
        (run demoExtract [RemoveReport ''a1'', Elapse 5000] (starting False ''https://hub'' [reportA]))
       = Some (True, None, [])
   \<and> timeoutId (fetchSettled (Resolved (Some [reportB])) (starting False ''https://hub'' [reportA])) = None
   \<and> \<not> isInitialLoad (running True ''https://hub'' [reportA])
   \<and> serverUrl (running True ''https://hub'' [reportA]) \<noteq> []
   \<and> [reportB] \<noteq> []
   \<and> map_option isInitialLoad (run demoExtract [ManualSync] (running True ''https://hub'' [reportA]))
       = Some False
   \<and> saveCalls (elapse 1000 (fetchSettled (Resolved (Some [reportB])) (running True ''https://hub'' [reportA])))
       = [SaveCall 1000 ''https://hub'' [reportB]]"
proof -
  let ?s = "starting False ''https://hub'' [reportA]"
  let ?u = "running True ''https://hub'' [reportA]"
  let ?es = "[RemoveReport ''a1'', Elapse 5000]"
  have s: "isInitialLoad ?s" "timeoutId ?s = None" "\<not> batchedUpdates ?s" "saveCalls ?s = []"
    by (simp_all add: starting_fields)
  have u: "\<not> isInitialLoad ?u" "serverUrl ?u = ''https://hub''" "saveCalls ?u = []" "clock ?u = 0"
    by (simp_all add: running_fields)
  have es: "list_all (\<lambda>e. \<not> settles e) ?es"
    by simp
  obtain s' where s': "run demoExtract ?es ?s = Some s'"
    by simp
  obtain u' where u': "run demoExtract [ManualSync] ?u = Some u'"
    by simp
  from initial_load_guard
         [of ?s ?es demoExtract s' "Resolved (Some [reportB])" ?u "[ManualSync]" u' "[reportB]"]
    s u es s' u'
  show ?thesis
    by (simp del: run.simps)
qed

text \<open>
  C1 as stated fails for the pulls after the start. The endpoint is set on a running
  component and the pull answers 300 ms later with one report: the replacement
  schedules a push, and at 1300 ms the pulled collection is sent back to the endpoint
  it came from, under either root. The same happens to a manual sync after a start
  whose own pull found the remote empty.
\<close>

theorem pull_echo_counterexample:
  "map_option saveCalls
     (session True Map.empty 0 demoExtract
        [UrlChange ''https://hub'', Elapse 300, FetchSettled (Resolved (Some [reportB])), Elapse 1000])
     = Some [SaveCall 1300 ''https://hub'' [reportB]]
   \<and> map_option saveCalls
       (session False Map.empty 0 demoExtract
          [UrlChange ''https://hub'', Elapse 300, FetchSettled (Resolved (Some [reportB])), Elapse 1000])
     = Some [SaveCall 1300 ''https://hub'' [reportB]]
   \<and> map_option saveCalls
       (session False (Map.empty(SERVER_URL_KEY \<mapsto> ''https://hub'')) 0 demoExtract
          [FetchSettled (Resolved None), ManualSync, Elapse 200,
           FetchSettled (Resolved (Some [reportB])), Elapse 1000])
     = Some [SaveCall 1200 ''https://hub'' [reportB]]"
proof -
  have m: "mount b Map.empty 0 = Some ((initialApp b Map.empty 0)\<lparr>isInitialLoad := False\<rparr>)" for b
    by (simp add: mount_def initialize_def Let_def truthy_def)
  have k: "STORAGE_KEY \<noteq> SERVER_URL_KEY"
    by (simp add: SERVER_URL_KEY_def STORAGE_KEY_def)
  have n: "mount False (Map.empty(SERVER_URL_KEY \<mapsto> ''https://hub'')) 0
     = Some (autoSaveEffect (handleServerFetch ''https://hub''
               ((initialApp False (Map.empty(SERVER_URL_KEY \<mapsto> ''https://hub'')) 0)
                  \<lparr>serverUrl := ''https://hub''\<rparr>)))"
    using k by (simp add: mount_def initialize_def Let_def truthy_def)
  show ?thesis
    by (simp add: session_def m n handleUrlChange_def handleServerFetch_def onManualSync_def
        fetchSettled_def elapse_def timerFires_def timeoutId_autoSaveEffect Let_def initialApp_def)
qed

text \<open>
  The startup pull itself depends on the root. Under a synchronous root the effect runs
  before \<^verbatim>\<open>finally\<close> lowers the flag, and nothing is pushed. Under a batching root the
  effect runs after it, and the pulled collection is pushed back.
\<close>

lemma startup_pull_by_root:
  "map_option saveCalls
     (session False (Map.empty(SERVER_URL_KEY \<mapsto> ''https://hub'')) 0 demoExtract
        [FetchSettled (Resolved (Some [reportB])), Elapse 1000])
     = Some []"
  "map_option saveCalls
     (session True (Map.empty(SERVER_URL_KEY \<mapsto> ''https://hub'')) 0 demoExtract
        [FetchSettled (Resolved (Some [reportB])), Elapse 1000])
     = Some [SaveCall 1000 ''https://hub'' [reportB]]"
proof -
  have k: "STORAGE_KEY \<noteq> SERVER_URL_KEY"
    by (simp add: SERVER_URL_KEY_def STORAGE_KEY_def)
  have n: "mount b (Map.empty(SERVER_URL_KEY \<mapsto> ''https://hub'')) 0
     = Some (autoSaveEffect (handleServerFetch ''https://hub''
               ((initialApp b (Map.empty(SERVER_URL_KEY \<mapsto> ''https://hub'')) 0)
                  \<lparr>serverUrl := ''https://hub''\<rparr>)))" for b
    using k by (simp add: mount_def initialize_def Let_def truthy_def)
  show "map_option saveCalls
     (session False (Map.empty(SERVER_URL_KEY \<mapsto> ''https://hub'')) 0 demoExtract
        [FetchSettled (Resolved (Some [reportB])), Elapse 1000])
     = Some []"
    by (simp add: session_def n handleServerFetch_def fetchSettled_def elapse_def timerFires_def
        timeoutId_autoSaveEffect Let_def initialApp_def)
  show "map_option saveCalls
     (session True (Map.empty(SERVER_URL_KEY \<mapsto> ''https://hub'')) 0 demoExtract
        [FetchSettled (Resolved (Some [reportB])), Elapse 1000])
     = Some [SaveCall 1000 ''https://hub'' [reportB]]"
    by (simp add: session_def n handleServerFetch_def fetchSettled_def elapse_def timerFires_def
        timeoutId_autoSaveEffect Let_def initialApp_def)
qed

end
